theory Spec2Isabelle
  imports Complex_Main "HOL-Library.Multiset" "HOL-Library.List_Lexorder"
begin

section \<open>Python strings\<close>

text \<open>
  A Python \<^verbatim>\<open>str\<close> is a sequence of Unicode code points; it is modelled as the list of
  its code points.  \<open>ascii\<close> turns an Isabelle string literal into such a list, so that
  ASCII inputs can be written as literals.  The field names and side markers of the two
  scripts are Chinese words; they are given by their code points.
\<close>

type_synonym ustr = "nat list"

definition ascii :: "string \<Rightarrow> ustr" where
  "ascii s = map of_char s"

text \<open>\<^verbatim>\<open>str.isspace\<close> for one code point (Unicode 14, CPython 3.11); these are the code
  points that \<^verbatim>\<open>str.strip()\<close> removes.\<close>

definition isspace :: "nat \<Rightarrow> bool" where
  "isspace c \<longleftrightarrow>
     (9 \<le> c \<and> c \<le> 13) \<or> (28 \<le> c \<and> c \<le> 32) \<or> c = 133 \<or> c = 160 \<or> c = 5760 \<or>
     (8192 \<le> c \<and> c \<le> 8202) \<or> c = 8232 \<or> c = 8233 \<or> c = 8239 \<or> c = 8287 \<or> c = 12288"

definition strip :: "ustr \<Rightarrow> ustr" where
  "strip s = rev (dropWhile isspace (rev (dropWhile isspace s)))"

text \<open>\<^verbatim>\<open>text.replace(",", "")\<close>: every occurrence of the one-character pattern is removed.\<close>

definition remove_commas :: "ustr \<Rightarrow> ustr" where
  "remove_commas s = filter (\<lambda>c. c \<noteq> 44) s"

text \<open>\<^verbatim>\<open>sub in s\<close> for strings: \<open>sub\<close> occurs in \<open>s\<close> as a contiguous run.\<close>

fun starts_with :: "ustr \<Rightarrow> ustr \<Rightarrow> bool" where
  "starts_with [] s = True"
| "starts_with (a # sub) [] = False"
| "starts_with (a # sub) (c # s) = (a = c \<and> starts_with sub s)"

fun contains :: "ustr \<Rightarrow> ustr \<Rightarrow> bool" where
  "contains sub [] = (sub = [])"
| "contains sub (c # s) = (starts_with sub (c # s) \<or> contains sub s)"

section \<open>Exceptions\<close>

datatype error =
    InvalidOperation
  | Overflow
  | TypeError
  | ValueError ustr

section \<open>The \<^verbatim>\<open>decimal\<close> module\<close>

text \<open>
  \<^verbatim>\<open>aggregate_contracts.py\<close> computes with \<^verbatim>\<open>decimal.Decimal\<close> under the default
  context: precision 28, \<^verbatim>\<open>ROUND_HALF_EVEN\<close>, \<^verbatim>\<open>Emax = 999999\<close>, \<^verbatim>\<open>Emin = -999999\<close>,
  \<^verbatim>\<open>clamp = 0\<close>, with the signals \<^verbatim>\<open>InvalidOperation\<close>, \<^verbatim>\<open>DivisionByZero\<close> and
  \<^verbatim>\<open>Overflow\<close> trapped (raised as exceptions).  A \<^verbatim>\<open>Decimal\<close> is a sign (\<open>True\<close> is
  negative), a coefficient and an exponent, or one of the special values.
\<close>

datatype decimal =
    Finite bool nat int
  | Infinite bool
  | QNaN bool nat
  | SNaN bool nat

definition prec :: nat where "prec = 28"
definition Emax :: int where "Emax = 999999"
definition Emin :: int where "Emin = - 999999"
definition Etiny :: int where "Etiny = Emin - (int prec - 1)"
definition Etop :: int where "Etop = Emax - (int prec - 1)"

text \<open>The number of decimal digits of a coefficient (\<^verbatim>\<open>len(self._int)\<close>).\<close>

fun ndigits :: "nat \<Rightarrow> nat" where
  "ndigits n = (if n < 10 then 1 else Suc (ndigits (n div 10)))"

declare ndigits.simps [simp del]

subsection \<open>Construction from a string\<close>

text \<open>
  \<^verbatim>\<open>Decimal(text)\<close> first turns the text into ASCII: surrounding whitespace is stripped,
  underscores are dropped, a non-ASCII whitespace becomes a blank, a non-ASCII decimal
  digit becomes its ASCII digit, and any other non-ASCII code point (or NUL) makes the
  conversion fail.  \<open>digit_zeros\<close> lists the code points of the zero digit of every
  Unicode decimal-digit block.
\<close>

definition digit_zeros :: "nat list" where
  "digit_zeros =
    [48, 1632, 1776, 1984, 2406, 2534, 2662, 2790, 2918, 3046, 3174, 3302, 3430, 3558,
     3664, 3792, 3872, 4160, 4240, 6112, 6160, 6470, 6608, 6784, 6800, 6992, 7088, 7232,
     7248, 42528, 43216, 43264, 43472, 43504, 43600, 44016, 65296, 66720, 68912, 69734,
     69872, 69942, 70096, 70384, 70736, 70864, 71248, 71360, 71472, 71904, 72016, 72784,
     73040, 73120, 92768, 92864, 93008, 120782, 120792, 120802, 120812, 120822, 123200,
     123632, 125264, 130032]"

definition to_decimal :: "nat \<Rightarrow> nat option" where
  "to_decimal c =
     (case filter (\<lambda>z. z \<le> c \<and> c < z + 10) digit_zeros of
        [] \<Rightarrow> None
      | z # _ \<Rightarrow> Some (c - z))"

definition as_ascii_char :: "nat \<Rightarrow> nat option" where
  "as_ascii_char c =
     (if 0 < c \<and> c \<le> 127 then Some c
      else if isspace c then Some 32
      else map_option (\<lambda>d. 48 + d) (to_decimal c))"

fun as_ascii_chars :: "ustr \<Rightarrow> ustr option" where
  "as_ascii_chars [] = Some []"
| "as_ascii_chars (c # cs) =
     (if c = 95 then as_ascii_chars cs
      else case as_ascii_char c of
             None \<Rightarrow> None
           | Some a \<Rightarrow> map_option ((#) a) (as_ascii_chars cs))"

definition numeric_as_ascii :: "ustr \<Rightarrow> ustr option" where
  "numeric_as_ascii s = as_ascii_chars (strip s)"

text \<open>The ASCII grammar: an optional sign, then \<^verbatim>\<open>Inf\<close> or \<^verbatim>\<open>Infinity\<close>, or \<^verbatim>\<open>NaN\<close> or
  \<^verbatim>\<open>sNaN\<close> with optional payload digits, or digits with an optional point and an optional
  exponent; letters in either case.\<close>

definition is_digit :: "nat \<Rightarrow> bool" where
  "is_digit c \<longleftrightarrow> 48 \<le> c \<and> c \<le> 57"

definition lower :: "nat \<Rightarrow> nat" where
  "lower c = (if 65 \<le> c \<and> c \<le> 90 then c + 32 else c)"

definition digits_val :: "ustr \<Rightarrow> nat" where
  "digits_val ds = foldl (\<lambda>a c. 10 * a + (c - 48)) 0 ds"

definition split_sign :: "ustr \<Rightarrow> bool \<times> ustr" where
  "split_sign s =
     (case s of
        [] \<Rightarrow> (False, [])
      | c # r \<Rightarrow> if c = 45 then (True, r) else if c = 43 then (False, r) else (False, s))"

definition parse_exponent :: "ustr \<Rightarrow> int option" where
  "parse_exponent s =
     (let (neg, ds) = split_sign s in
      if ds \<noteq> [] \<and> list_all is_digit ds
      then Some (if neg then - int (digits_val ds) else int (digits_val ds))
      else None)"

definition parse_number :: "ustr \<Rightarrow> (nat \<times> int) option" where
  "parse_number s =
     (let mant = takeWhile (\<lambda>c. lower c \<noteq> 101) s;
          rest = dropWhile (\<lambda>c. lower c \<noteq> 101) s;
          ip = takeWhile is_digit mant;
          after = dropWhile is_digit mant;
          fp_opt = (case after of
                      [] \<Rightarrow> Some []
                    | c # fr \<Rightarrow> if c = 46 \<and> list_all is_digit fr then Some fr else None);
          ex_opt = (case rest of [] \<Rightarrow> Some 0 | _ # ex \<Rightarrow> parse_exponent ex)
      in case (fp_opt, ex_opt) of
           (Some fp, Some ex) \<Rightarrow>
             if ip = [] \<and> fp = [] then None
             else Some (digits_val (ip @ fp), ex - int (length fp))
         | _ \<Rightarrow> None)"

text \<open>The constructor is exact: a finite value that the widest context of the C
  implementation cannot hold without rounding or clamping is a conversion error.\<close>

definition maxcontext_ok :: "nat \<Rightarrow> int \<Rightarrow> bool" where
  "maxcontext_ok c e \<longleftrightarrow>
     - 1999999999999999997 \<le> e \<and>
     (if c = 0 then e \<le> 999999999999999999
      else e + int (ndigits c) - 1 \<le> 999999999999999999)"

definition Decimal_str :: "ustr \<Rightarrow> error + decimal" where
  "Decimal_str s =
     (case numeric_as_ascii s of
        None \<Rightarrow> Inl InvalidOperation
      | Some a \<Rightarrow>
          (let (neg, body) = split_sign a; low = map lower body in
           if low = ascii ''inf'' \<or> low = ascii ''infinity'' then Inr (Infinite neg)
           else if take 3 low = ascii ''nan'' then
             (if list_all is_digit (drop 3 low)
              then Inr (QNaN neg (digits_val (drop 3 low))) else Inl InvalidOperation)
           else if take 4 low = ascii ''snan'' then
             (if list_all is_digit (drop 4 low)
              then Inr (SNaN neg (digits_val (drop 4 low))) else Inl InvalidOperation)
           else case parse_number body of
                  None \<Rightarrow> Inl InvalidOperation
                | Some (c, e) \<Rightarrow>
                    if maxcontext_ok c e then Inr (Finite neg c e)
                    else Inl InvalidOperation))"

subsection \<open>Comparison with zero\<close>

text \<open>\<^verbatim>\<open>d == 0\<close>: a signaling NaN signals \<^verbatim>\<open>InvalidOperation\<close>, a quiet NaN and an
  infinity are unequal to zero, a finite value is zero when its coefficient is.\<close>

fun eq_zero :: "decimal \<Rightarrow> error + bool" where
  "eq_zero (SNaN s p) = Inl InvalidOperation"
| "eq_zero (QNaN s p) = Inr False"
| "eq_zero (Infinite s) = Inr False"
| "eq_zero (Finite s c e) = Inr (c = 0)"

subsection \<open>Addition in the default context\<close>

text \<open>\<open>round_half_even c k\<close> drops the last \<open>k\<close> digits of \<open>c\<close>, rounding to nearest and a
  tie to the even neighbour.\<close>

definition round_half_even :: "nat \<Rightarrow> nat \<Rightarrow> nat" where
  "round_half_even c k =
     (let p = 10 ^ k; q = c div p; r = c mod p in
      if 2 * r > p \<or> (2 * r = p \<and> odd q) then q + 1 else q)"

text \<open>\<^verbatim>\<open>Decimal._fix\<close>: the exact result is rounded to the precision of the context and to
  its exponent range; a result above \<^verbatim>\<open>Emax\<close> raises \<^verbatim>\<open>Overflow\<close>.\<close>

definition dec_fix :: "bool \<Rightarrow> nat \<Rightarrow> int \<Rightarrow> error + decimal" where
  "dec_fix s c e =
     (if c = 0 then Inr (Finite s 0 (min (max e Etiny) Emax))
      else
        let exp_min0 = int (ndigits c) + e - int prec in
        if exp_min0 > Etop then Inl Overflow
        else
          let exp_min = max exp_min0 Etiny in
          if e < exp_min then
            (let c' = round_half_even c (nat (exp_min - e)) in
             if c' \<ge> 10 ^ prec then
               (if exp_min + 1 > Etop then Inl Overflow
                else Inr (Finite s (c' div 10) (exp_min + 1)))
             else Inr (Finite s c' exp_min))
          else Inr (Finite s c e))"

definition fix_nan :: "bool \<Rightarrow> nat \<Rightarrow> decimal" where
  "fix_nan s p = QNaN s (p mod 10 ^ prec)"

definition signed :: "bool \<Rightarrow> nat \<Rightarrow> int" where
  "signed s c = (if s then - int c else int c)"

fun dec_add :: "decimal \<Rightarrow> decimal \<Rightarrow> error + decimal" where
  "dec_add (SNaN s p) b = Inl InvalidOperation"
| "dec_add a (SNaN s p) = Inl InvalidOperation"
| "dec_add (QNaN s p) b = Inr (fix_nan s p)"
| "dec_add a (QNaN s p) = Inr (fix_nan s p)"
| "dec_add (Infinite s) (Infinite t) =
     (if s \<noteq> t then Inl InvalidOperation else Inr (Infinite s))"
| "dec_add (Infinite s) b = Inr (Infinite s)"
| "dec_add a (Infinite t) = Inr (Infinite t)"
| "dec_add (Finite s1 c1 e1) (Finite s2 c2 e2) =
     (let e = min e1 e2;
          v = signed s1 (c1 * 10 ^ nat (e1 - e)) + signed s2 (c2 * 10 ^ nat (e2 - e))
      in if v = 0 then dec_fix (c1 = 0 \<and> c2 = 0 \<and> s1 \<and> s2) 0 e
         else dec_fix (v < 0) (nat \<bar>v\<bar>) e)"

section \<open>aggregate\_contracts.py\<close>

subsection \<open>\<^verbatim>\<open>parse_decimal\<close>\<close>

definition zero :: decimal where
  "zero = Finite False 0 0"

definition parse_decimal :: "ustr option \<Rightarrow> error + decimal" where
  "parse_decimal value =
     (case value of
        None \<Rightarrow> Inr zero
      | Some v \<Rightarrow>
          (let text = strip v in
           if text = [] then Inr zero
           else case Decimal_str (remove_commas text) of
                  Inl InvalidOperation \<Rightarrow> Inr zero
                | Inl e \<Rightarrow> Inl e
                | Inr d \<Rightarrow> Inr d))"

subsection \<open>\<^verbatim>\<open>ContractAggregation\<close>\<close>

record ContractAggregation =
  cost :: decimal
  profit :: decimal

definition ContractAggregation_init :: ContractAggregation where
  "ContractAggregation_init = \<lparr>cost = zero, profit = zero\<rparr>"

definition add_cost :: "ContractAggregation \<Rightarrow> decimal \<Rightarrow> error + ContractAggregation" where
  "add_cost b amount =
     (case dec_add (cost b) amount of
        Inl e \<Rightarrow> Inl e
      | Inr d \<Rightarrow> Inr (b\<lparr>cost := d\<rparr>))"

definition add_profit :: "ContractAggregation \<Rightarrow> decimal \<Rightarrow> error + ContractAggregation" where
  "add_profit b amount =
     (case dec_add (profit b) amount of
        Inl e \<Rightarrow> Inl e
      | Inr d \<Rightarrow> Inr (b\<lparr>profit := d\<rparr>))"

subsection \<open>\<^verbatim>\<open>aggregate_contracts\<close>\<close>

text \<open>
  A row is a dictionary from field names to strings.  The three field names the function
  reads are \<^verbatim>\<open>"\<close>\<open>\<dots>\<close>\<^verbatim>\<open>"\<close> literals of the source: the contract, the notional
  (\<open>key_amount\<close>) and the realized profit and loss (\<open>key_pnl\<close>).  The result is an
  \<^verbatim>\<open>OrderedDict\<close>: an association list with distinct keys, in the order of first insertion.
\<close>

type_synonym row = "ustr \<rightharpoonup> ustr"

type_synonym totals = "(ustr \<times> ContractAggregation) list"

definition key_contract :: ustr where
  "key_contract = [21512, 32422]"

definition key_amount :: ustr where
  "key_amount = [25104, 20132, 39069]"

definition key_pnl :: ustr where
  "key_pnl = [24050, 23454, 29616, 30408, 20111]"

text \<open>\<^verbatim>\<open>totals.setdefault(contract, ContractAggregation())\<close> returns the bucket of the
  contract, inserting a fresh one at the end when there is none.\<close>

definition setdefault :: "totals \<Rightarrow> ustr \<Rightarrow> totals \<times> ContractAggregation" where
  "setdefault t k =
     (case map_of t k of
        Some b \<Rightarrow> (t, b)
      | None \<Rightarrow> (t @ [(k, ContractAggregation_init)], ContractAggregation_init))"

text \<open>The bucket is an object held by the dictionary; a method that mutates it changes
  the entry of its key.\<close>

definition store :: "totals \<Rightarrow> ustr \<Rightarrow> ContractAggregation \<Rightarrow> totals" where
  "store t k b = map (\<lambda>(k', b'). if k' = k then (k', b) else (k', b')) t"

text \<open>One iteration of the loop over the rows.\<close>

definition aggregate_row :: "totals \<Rightarrow> row \<Rightarrow> error + totals" where
  "aggregate_row t r =
     (let contract = strip (case r key_contract of None \<Rightarrow> [] | Some v \<Rightarrow> v) in
      if contract = [] then Inr t
      else
        case parse_decimal (r key_pnl) of
          Inl e \<Rightarrow> Inl e
        | Inr pnl \<Rightarrow>
            (case parse_decimal (r key_amount) of
               Inl e \<Rightarrow> Inl e
             | Inr amount \<Rightarrow>
                 (let (t1, bucket) = setdefault t contract in
                  case eq_zero pnl of
                    Inl e \<Rightarrow> Inl e
                  | Inr True \<Rightarrow>
                      (case add_cost bucket amount of
                         Inl e \<Rightarrow> Inl e
                       | Inr b \<Rightarrow> Inr (store t1 contract b))
                  | Inr False \<Rightarrow>
                      (case add_profit bucket pnl of
                         Inl e \<Rightarrow> Inl e
                       | Inr b \<Rightarrow> Inr (store t1 contract b)))))"

fun aggregate_loop :: "totals \<Rightarrow> row list \<Rightarrow> error + totals" where
  "aggregate_loop t [] = Inr t"
| "aggregate_loop t (r # rows) =
     (case aggregate_row t r of
        Inl e \<Rightarrow> Inl e
      | Inr t' \<Rightarrow> aggregate_loop t' rows)"

definition aggregate_contracts :: "row list \<Rightarrow> error + totals" where
  "aggregate_contracts rows = aggregate_loop [] rows"

subsection \<open>\<^verbatim>\<open>load_rows\<close>\<close>

text \<open>
  \<^verbatim>\<open>csv.DictReader\<close> is the library's: \<open>fieldnames\<close> is what its \<^verbatim>\<open>fieldnames\<close> property
  returns (the first record of the file, \<^verbatim>\<open>None\<close> for a file with no record at all) and
  \<open>records\<close> the rows it would yield.  The comprehension evaluates
  \<^verbatim>\<open>field not in reader.fieldnames\<close> before \<^verbatim>\<open>reader.fieldnames is None\<close>, and a
  membership test in \<^verbatim>\<open>None\<close> raises \<^verbatim>\<open>TypeError\<close>.  The message of the \<^verbatim>\<open>ValueError\<close>
  is the prefix of the source followed by the sorted missing names, joined by a comma and
  a blank.
\<close>

definition required_fields :: "ustr list" where
  "required_fields = [key_contract, key_amount, key_pnl]"

definition message_prefix :: ustr where
  "message_prefix =
     ascii ''Input CSV '' @ [32570, 23569, 24517, 38656, 23383, 27573] @ ascii '': ''"

fun join :: "ustr \<Rightarrow> ustr list \<Rightarrow> ustr" where
  "join sep [] = []"
| "join sep [x] = x"
| "join sep (x # y # ys) = x @ sep @ join sep (y # ys)"

definition load_rows :: "ustr list option \<Rightarrow> row list \<Rightarrow> error + row list" where
  "load_rows fieldnames records =
     (case fieldnames of
        None \<Rightarrow> Inl TypeError
      | Some fs \<Rightarrow>
          (let missing = remdups (filter (\<lambda>field. field \<notin> set fs) required_fields) in
           if missing \<noteq> []
           then Inl (ValueError (message_prefix @ join (ascii '', '') (sort missing)))
           else Inr records))"

section \<open>process\_excel.py\<close>

text \<open>
  \<^verbatim>\<open>process_trading_data\<close> works on a pandas data frame.  The model is the body of its
  loop for one symbol, from the filter on the notional to the record appended to
  \<^verbatim>\<open>trades\<close>; its input is the frame \<^verbatim>\<open>df_clean[df_clean[\<close>\<open>\<dots>\<close>\<^verbatim>\<open>] == symbol]\<close> after
  \<^verbatim>\<open>sort_values\<close>, as the list of its rows.

  A cell of a numeric column is seen by the code through two operations only:
  \<^verbatim>\<open>dropna\<close>, which asks whether the cell is missing, and
  \<^verbatim>\<open>pd.to_numeric(..., errors='coerce')\<close>, which yields a number or not-a-number.  So a
  cell is \<open>Missing\<close> (empty: dropped by \<^verbatim>\<open>dropna\<close>, coerced to not-a-number),
  \<open>Unparseable\<close> (a text that is no number: kept by \<^verbatim>\<open>dropna\<close>, coerced to
  not-a-number) or a number.  The numbers of the cells and the sums and averages of a leg
  are exact rationals here, where pandas rounds every sum to binary floating point: for
  the legs the model says which rows and which formula give a figure, not how the sums
  round.  The profit rate, whose rounding shows in the digits that are printed, is computed
  and rendered in binary64 as the code does (below).  The side cell holds a text or not
  (\<open>None\<close>: an empty cell, or a cell that is not a string).
\<close>

datatype cell = Missing | Unparseable | Num rat

record order_row =
  order_time :: int
  side :: "ustr option"
  avg_price :: cell
  quantity :: cell
  notional :: cell

text \<open>\<^verbatim>\<open>pd.to_numeric(cell, errors='coerce')\<close>; \<open>None\<close> is not-a-number.\<close>

fun to_numeric :: "cell \<Rightarrow> rat option" where
  "to_numeric Missing = None"
| "to_numeric Unparseable = None"
| "to_numeric (Num x) = Some x"

text \<open>A comparison with not-a-number is false.\<close>

definition positive_amount :: "order_row \<Rightarrow> bool" where
  "positive_amount r = (case to_numeric (notional r) of None \<Rightarrow> False | Some a \<Rightarrow> a > 0)"

text \<open>The markers of the side column: buy, sell, open-long, open-short and close.\<close>

definition marker_buy :: ustr where "marker_buy = [20080]"
definition marker_sell :: ustr where "marker_sell = [21334]"
definition marker_open_long :: ustr where "marker_open_long = [24320, 22810]"
definition marker_open_short :: ustr where "marker_open_short = [24320, 31354]"
definition marker_close :: ustr where "marker_close = [24179]"

text \<open>\<^verbatim>\<open>Series.str.contains('a|b', na=False)\<close> on one cell: a regular-expression search for
  either alternative; a cell without text gives \<^verbatim>\<open>False\<close>.\<close>

definition str_contains :: "ustr list \<Rightarrow> ustr option \<Rightarrow> bool" where
  "str_contains alternatives c =
     (case c of None \<Rightarrow> False | Some s \<Rightarrow> list_ex (\<lambda>m. contains m s) alternatives)"

definition open_markers :: "bool \<Rightarrow> ustr list" where
  "open_markers is_long =
     (if is_long then [marker_buy, marker_open_long] else [marker_sell, marker_open_short])"

definition close_markers :: "bool \<Rightarrow> ustr list" where
  "close_markers is_long =
     (if is_long then [marker_sell, marker_close] else [marker_buy, marker_close])"

definition open_orders :: "bool \<Rightarrow> order_row list \<Rightarrow> order_row list" where
  "open_orders is_long symbol_df =
     filter (\<lambda>r. str_contains (open_markers is_long) (side r)) symbol_df"

definition close_orders :: "bool \<Rightarrow> order_row list \<Rightarrow> order_row list" where
  "close_orders is_long symbol_df =
     filter (\<lambda>r. str_contains (close_markers is_long) (side r)) symbol_df"

text \<open>\<^verbatim>\<open>'\<close>\<open>\<dots>\<close>\<^verbatim>\<open>' in first_order\<close> raises \<^verbatim>\<open>TypeError\<close> when the cell is not a string.\<close>

definition infer_is_long :: "ustr option \<Rightarrow> error + bool" where
  "infer_is_long first_order =
     (case first_order of
        None \<Rightarrow> Inl TypeError
      | Some s \<Rightarrow> Inr (contains marker_buy s \<or> contains marker_open_long s))"

text \<open>\<^verbatim>\<open>dropna(subset=[price, quantity])\<close> and \<^verbatim>\<open>Series.sum()\<close>, which skips
  not-a-number and is zero on an empty series.\<close>

definition dropna :: "order_row list \<Rightarrow> order_row list" where
  "dropna orders = filter (\<lambda>r. avg_price r \<noteq> Missing \<and> quantity r \<noteq> Missing) orders"

definition nansum :: "rat option list \<Rightarrow> rat" where
  "nansum xs = sum_list (map (\<lambda>x. case x of None \<Rightarrow> 0 | Some v \<Rightarrow> v) xs)"

definition nan_times :: "rat option \<Rightarrow> rat option \<Rightarrow> rat option" where
  "nan_times a b =
     (case a of None \<Rightarrow> None | Some x \<Rightarrow> (case b of None \<Rightarrow> None | Some y \<Rightarrow> Some (x * y)))"

definition leg_avg_price :: "order_row list \<Rightarrow> rat" where
  "leg_avg_price orders =
     (if length orders > 0 then
        (let orders_valid = dropna orders in
         if length orders_valid > 0 then
           (let total_quantity = nansum (map (\<lambda>r. to_numeric (quantity r)) orders_valid) in
            if total_quantity > 0
            then nansum (map (\<lambda>r. nan_times (to_numeric (avg_price r)) (to_numeric (quantity r)))
                           orders_valid) / total_quantity
            else 0)
         else 0)
      else 0)"

definition leg_total_amount :: "order_row list \<Rightarrow> rat" where
  "leg_total_amount orders =
     (if length orders > 0 then
        (let orders_valid = dropna orders in
         if length orders_valid > 0
         then nansum (map (\<lambda>r. to_numeric (notional r)) orders_valid)
         else 0)
      else 0)"

fun series_min :: "int list \<Rightarrow> int option" where
  "series_min [] = None"
| "series_min (x # xs) = Some (fold min xs x)"

fun series_max :: "int list \<Rightarrow> int option" where
  "series_max [] = None"
| "series_max (x # xs) = Some (fold max xs x)"

subsection \<open>Binary floating point\<close>

text \<open>
  \<^verbatim>\<open>profit_amount / open_total_amount * 100\<close> is a quotient and a product of IEEE 754
  binary64 numbers, and \<^verbatim>\<open>f"{profit_rate:.2f}%"\<close> renders a binary64 number.  Such a
  number is a sign (\<open>True\<close> is negative) with a magnitude, an infinity or NaN.  Every
  operation gives the exact result rounded to the nearest binary64 number, a tie to the one
  with an even significand: with \<open>e\<close> the binary exponent of the magnitude, not below
  \<open>-1022\<close>, the magnitude is rounded to a multiple of \<open>2 powi (e - 52)\<close>, and a result of
  \<open>2 ^ 1024\<close> or more is an infinity.
\<close>

datatype float64 = Float64 bool rat | Inf64 bool | NaN64

text \<open>The number of binary digits of a natural number.\<close>

fun bit_length :: "nat \<Rightarrow> nat" where
  "bit_length n = (if n = 0 then 0 else Suc (bit_length (n div 2)))"

declare bit_length.simps [simp del]

text \<open>The binary exponent of a positive magnitude \<open>m\<close>: the \<open>e\<close> with
  \<open>2 powi e \<le> m < 2 powi (e + 1)\<close>.\<close>

definition floor_log2 :: "rat \<Rightarrow> int" where
  "floor_log2 m =
     (if 1 \<le> m then int (bit_length (nat \<lfloor>m\<rfloor>)) - 1
      else - int (bit_length (nat \<lceil>1 / m\<rceil> - 1)))"

definition round_half_even_rat :: "rat \<Rightarrow> nat" where
  "round_half_even_rat x =
     (let f = \<lfloor>x\<rfloor>; d = x - of_int f in
      nat (if d > 1 / 2 \<or> (d = 1 / 2 \<and> odd f) then f + 1 else f))"

definition round_f64 :: "bool \<Rightarrow> rat \<Rightarrow> float64" where
  "round_f64 s m =
     (if m = 0 then Float64 s 0
      else
        let e = max (floor_log2 m) (- 1022);
            q = 2 powi (e - 52);
            r = of_nat (round_half_even_rat (m / q)) * q
        in if 2 ^ 1024 \<le> r then Inf64 s else Float64 s r)"

text \<open>The binary64 number nearest to a rational number.\<close>

definition to_f64 :: "rat \<Rightarrow> float64" where
  "to_f64 x = round_f64 (x < 0) \<bar>x\<bar>"

fun fmul :: "float64 \<Rightarrow> float64 \<Rightarrow> float64" where
  "fmul NaN64 b = NaN64"
| "fmul a NaN64 = NaN64"
| "fmul (Inf64 s) (Inf64 t) = Inf64 (s \<noteq> t)"
| "fmul (Inf64 s) (Float64 t n) = (if n = 0 then NaN64 else Inf64 (s \<noteq> t))"
| "fmul (Float64 s m) (Inf64 t) = (if m = 0 then NaN64 else Inf64 (s \<noteq> t))"
| "fmul (Float64 s m) (Float64 t n) = round_f64 (s \<noteq> t) (m * n)"

fun fdiv :: "float64 \<Rightarrow> float64 \<Rightarrow> float64" where
  "fdiv NaN64 b = NaN64"
| "fdiv a NaN64 = NaN64"
| "fdiv (Inf64 s) (Inf64 t) = NaN64"
| "fdiv (Inf64 s) (Float64 t n) = Inf64 (s \<noteq> t)"
| "fdiv (Float64 s m) (Inf64 t) = Float64 (s \<noteq> t) 0"
| "fdiv (Float64 s m) (Float64 t n) =
     (if n = 0 then (if m = 0 then NaN64 else Inf64 (s \<noteq> t))
      else round_f64 (s \<noteq> t) (m / n))"

text \<open>\<^verbatim>\<open>f"{profit_rate:.2f}"\<close>: the exact value of the binary64 number rounded to two
  fractional digits, a tie to the even neighbour, with a minus sign for a negative number
  (a negative zero included).\<close>

fun digits_of :: "nat \<Rightarrow> ustr" where
  "digits_of n = (if n < 10 then [48 + n] else digits_of (n div 10) @ [48 + n mod 10])"

declare digits_of.simps [simp del]

fun format_2f :: "float64 \<Rightarrow> ustr" where
  "format_2f (Float64 s m) =
     (let n = round_half_even_rat (m * 100) in
      (if s then [45] else []) @ digits_of (n div 100) @ [46] @
      [48 + (n mod 100) div 10, 48 + n mod 10])"
| "format_2f (Inf64 s) = (if s then ascii ''-inf'' else ascii ''inf'')"
| "format_2f NaN64 = ascii ''nan''"

subsection \<open>The summary of one symbol\<close>

datatype direction = Long | Short

record summary =
  symbol :: ustr
  start_time :: "int option"
  end_time :: "int option"
  direction :: direction
  open_avg_price :: rat
  open_total_amount :: rat
  close_avg_price :: rat
  close_total_amount :: rat
  profit_rate :: ustr
  profit_amount :: rat

text \<open>The rows that survive the filter on the notional, the direction inferred from the
  first of them, and the two legs; \<open>None\<close> when no row survives (\<^verbatim>\<open>continue\<close>).\<close>

definition legs :: "order_row list \<Rightarrow> error + (bool \<times> order_row list \<times> order_row list) option"
  where
  "legs sorted_rows =
     (let symbol_df = filter positive_amount sorted_rows in
      case symbol_df of
        [] \<Rightarrow> Inr None
      | first # _ \<Rightarrow>
          (case infer_is_long (side first) of
             Inl e \<Rightarrow> Inl e
           | Inr is_long \<Rightarrow>
               Inr (Some (is_long, open_orders is_long symbol_df,
                          close_orders is_long symbol_df))))"

text \<open>The totals enter the rate as binary64 numbers: a total that binary64 holds exactly
  as it is, any other rounded to the nearest.\<close>

definition process_symbol :: "ustr \<Rightarrow> order_row list \<Rightarrow> error + summary option" where
  "process_symbol name sorted_rows =
     (case legs sorted_rows of
        Inl e \<Rightarrow> Inl e
      | Inr None \<Rightarrow> Inr None
      | Inr (Some (is_long, opens, closes)) \<Rightarrow>
          (let start = series_min (map order_time opens);
               open_avg = leg_avg_price opens;
               open_total = leg_total_amount opens;
               close_avg = leg_avg_price closes;
               close_total = leg_total_amount closes;
               finish = (if length closes > 0 then series_max (map order_time closes)
                         else start);
               profit = (if is_long then close_total - open_total
                         else open_total - close_total);
               rate = (if open_total > 0
                       then fmul (fdiv (to_f64 profit) (to_f64 open_total)) (to_f64 100)
                       else to_f64 0)
           in Inr (Some \<lparr>symbol = name, start_time = start, end_time = finish,
                 direction = (if is_long then Long else Short),
                 open_avg_price = open_avg, open_total_amount = open_total,
                 close_avg_price = close_avg, close_total_amount = close_total,
                 profit_rate = format_2f rate @ [37], profit_amount = profit\<rparr>)))"

section \<open>Notions used to state the properties\<close>

text \<open>The numeric order of two decimals; a comparison that involves a NaN is false.\<close>

fun dec_less :: "decimal \<Rightarrow> decimal \<Rightarrow> bool" where
  "dec_less (Finite s1 c1 e1) (Finite s2 c2 e2) =
     (let e = min e1 e2 in
      signed s1 (c1 * 10 ^ nat (e1 - e)) < signed s2 (c2 * 10 ^ nat (e2 - e)))"
| "dec_less (Finite s1 c1 e1) (Infinite t) = (\<not> t)"
| "dec_less (Infinite s) (Finite s2 c2 e2) = s"
| "dec_less (Infinite s) (Infinite t) = (s \<and> \<not> t)"
| "dec_less a b = False"

text \<open>The weighted average of a leg in the words of the specification: restricted to the
  rows with both a parseable price and a parseable quantity, the sum of price times
  quantity over the sum of the quantities, or zero when that sum is zero.\<close>

definition both_parseable :: "order_row \<Rightarrow> bool" where
  "both_parseable r \<longleftrightarrow> to_numeric (avg_price r) \<noteq> None \<and> to_numeric (quantity r) \<noteq> None"

definition spec_weighted_average :: "order_row list \<Rightarrow> rat" where
  "spec_weighted_average orders =
     (let restricted = filter both_parseable orders;
          total = nansum (map (\<lambda>r. to_numeric (quantity r)) restricted)
      in if total = 0 then 0
         else nansum (map (\<lambda>r. nan_times (to_numeric (avg_price r)) (to_numeric (quantity r)))
                restricted) / total)"

text \<open>The value of a finite decimal as a rational number.\<close>

definition finite_value :: "bool \<Rightarrow> nat \<Rightarrow> int \<Rightarrow> rat" where
  "finite_value s c e = of_int (signed s c) * 10 powi e"

text \<open>The finite decimals that a result of the default context can be: at most \<open>prec\<close>
  digits and an exponent of at least \<open>Etiny\<close>.\<close>

fun representable :: "decimal \<Rightarrow> bool" where
  "representable (Finite s c e) = (c < 10 ^ prec \<and> Etiny \<le> e)"
| "representable d = True"

text \<open>A decimal that is a number: finite or infinite, not a NaN.\<close>

fun is_number :: "decimal \<Rightarrow> bool" where
  "is_number (Finite s c e) = True"
| "is_number (Infinite s) = True"
| "is_number d = False"

text \<open>The numeric order \<open>a \<le> b\<close> of two decimals; a comparison that involves a NaN is
  false.\<close>

fun dec_le :: "decimal \<Rightarrow> decimal \<Rightarrow> bool" where
  "dec_le (Finite s1 c1 e1) (Finite s2 c2 e2) =
     (let e = min e1 e2 in
      signed s1 (c1 * 10 ^ nat (e1 - e)) \<le> signed s2 (c2 * 10 ^ nat (e2 - e)))"
| "dec_le (Finite s1 c1 e1) (Infinite t) = (\<not> t)"
| "dec_le (Infinite s) (Finite s2 c2 e2) = s"
| "dec_le (Infinite s) (Infinite t) = (s \<or> \<not> t)"
| "dec_le a b = False"

section \<open>Evaluation\<close>

text \<open>The defining equations that evaluate the functions above on a concrete input.\<close>

lemmas string_eval = ascii_def strip_def isspace_def remove_commas_def

lemmas Decimal_eval =
  Decimal_str_def numeric_as_ascii_def as_ascii_char_def to_decimal_def digit_zeros_def
  split_sign_def lower_def is_digit_def digits_val_def parse_number_def parse_exponent_def
  maxcontext_ok_def ndigits.simps Let_def

lemmas parse_eval = parse_decimal_def zero_def string_eval Decimal_eval

lemmas add_eval =
  dec_fix_def fix_nan_def signed_def round_half_even_def prec_def Emax_def Emin_def
  Etiny_def Etop_def

lemmas netting_eval =
  aggregate_contracts_def aggregate_row_def setdefault_def store_def add_cost_def
  add_profit_def ContractAggregation_init_def key_contract_def key_amount_def key_pnl_def
  parse_eval add_eval

text \<open>The floor and the ceiling of a quotient of two numerals.\<close>

lemma floor_rat_numeral_div:
  "\<lfloor>(numeral a / numeral b :: rat)\<rfloor> = numeral a div numeral b"
  by (metis floor_divide_of_int_eq of_int_numeral)

lemma floor_rat_one_div:
  "\<lfloor>(1 / numeral b :: rat)\<rfloor> = 1 div numeral b"
  by (metis floor_divide_of_int_eq of_int_numeral of_int_1)

lemma ceiling_rat_numeral_div:
  "\<lceil>(numeral a / numeral b :: rat)\<rceil> = - (- numeral a div numeral b)"
  unfolding ceiling_def
  by (metis floor_divide_of_int_eq of_int_numeral of_int_minus minus_divide_left)

lemma ceiling_rat_one_div:
  "\<lceil>(1 / numeral b :: rat)\<rceil> = - (- 1 div numeral b)"
  unfolding ceiling_def
  by (metis floor_divide_of_int_eq of_int_numeral of_int_1 of_int_minus minus_divide_left)

lemmas float_eval =
  floor_log2_def bit_length.simps round_half_even_rat_def round_f64_def to_f64_def
  digits_of.simps ascii_def Let_def
  floor_rat_numeral_div floor_rat_one_div ceiling_rat_numeral_div ceiling_rat_one_div

lemmas reconstruction_eval =
  process_symbol_def legs_def positive_amount_def infer_is_long_def open_orders_def
  close_orders_def open_markers_def close_markers_def str_contains_def marker_buy_def
  marker_sell_def marker_open_long_def marker_open_short_def marker_close_def dropna_def
  nansum_def nan_times_def leg_avg_price_def leg_total_amount_def both_parseable_def
  spec_weighted_average_def float_eval

section \<open>Properties of aggregate\_contracts.py\<close>

subsection \<open>Tolerant parsing\<close>

lemma Decimal_str_error: "Decimal_str s = Inl e \<Longrightarrow> e = InvalidOperation"
  by (auto simp: Decimal_str_def Let_def split: option.splits prod.splits if_splits)

lemma parse_decimal_total: "\<exists>d. parse_decimal val = Inr d"
proof (cases val)
  case None
  then show ?thesis by (simp add: parse_decimal_def)
next
  case (Some v)
  show ?thesis
  proof (cases "Decimal_str (remove_commas (strip v))")
    case (Inl e)
    then have "e = InvalidOperation" by (rule Decimal_str_error)
    with Inl Some show ?thesis by (simp add: parse_decimal_def Let_def)
  next
    case (Inr d)
    with Some show ?thesis by (simp add: parse_decimal_def Let_def)
  qed
qed

text \<open>
  Claim C6.  \<^verbatim>\<open>parse_decimal\<close> returns a decimal for every argument, \<^verbatim>\<open>None\<close> included,
  and never raises; \<^verbatim>\<open>None\<close>, a text that is blank after stripping and a text that the
  \<^verbatim>\<open>Decimal\<close> constructor rejects all give exact zero.
\<close>

theorem parse_decimal_tolerant:
  "(\<exists>d. parse_decimal val = Inr d) \<and>
   parse_decimal None = Inr zero \<and>
   (strip v = [] \<longrightarrow> parse_decimal (Some v) = Inr zero) \<and>
   (Decimal_str (remove_commas (strip v)) = Inl e \<longrightarrow> parse_decimal (Some v) = Inr zero)"
proof -
  have "parse_decimal (Some v) = Inr zero"
    if "Decimal_str (remove_commas (strip v)) = Inl e"
  proof -
    from that have "e = InvalidOperation" by (rule Decimal_str_error)
    with that show ?thesis by (simp add: parse_decimal_def Let_def)
  qed
  then show ?thesis
    using parse_decimal_total [of val] by (simp add: parse_decimal_def)
qed

theorem parse_decimal_tolerant_witness:
  "strip (ascii ''  '') = [] \<and> parse_decimal (Some (ascii ''  '')) = Inr zero \<and>
   Decimal_str (remove_commas (strip (ascii ''n/a''))) = Inl InvalidOperation \<and>
   parse_decimal (Some (ascii ''n/a'')) = Inr zero \<and>
   (\<exists>d. parse_decimal (Some (ascii ''1,234.50'')) = Inr d)"
proof -
  have h1: "strip (ascii ''  '') = []" by (simp add: string_eval)
  have h2: "Decimal_str (remove_commas (strip (ascii ''n/a''))) = Inl InvalidOperation"
    by (simp add: string_eval Decimal_eval)
  from parse_decimal_tolerant [of "Some (ascii ''1,234.50'')" "ascii ''  ''" InvalidOperation]
    parse_decimal_tolerant [of None "ascii ''n/a''" InvalidOperation] h1 h2
  show ?thesis by blast
qed

subsection \<open>One row of the loop\<close>

lemma aggregate_loop_append:
  "aggregate_loop t (xs @ ys) =
     (case aggregate_loop t xs of Inl e \<Rightarrow> Inl e | Inr t' \<Rightarrow> aggregate_loop t' ys)"
  by (induction xs arbitrary: t) (auto split: sum.splits)

lemma map_of_store:
  "map_of (store t k b) k' = (if k' = k \<and> map_of t k \<noteq> None then Some b else map_of t k')"
  by (induction t) (auto simp: store_def)

lemma map_of_setdefault:
  "map_of (fst (setdefault t k)) = (map_of t)(k \<mapsto> snd (setdefault t k))"
  by (auto simp: setdefault_def map_add_def fun_eq_iff split: option.splits)

lemma aggregate_row_step:
  assumes c: "contract = strip (case r key_contract of None \<Rightarrow> [] | Some v \<Rightarrow> v)"
    and ne: "contract \<noteq> []"
    and p: "parse_decimal (r key_pnl) = Inr pnl"
    and a: "parse_decimal (r key_amount) = Inr amount"
    and sd: "setdefault t contract = (t1, b0)"
  shows "aggregate_row t r =
      (case eq_zero pnl of
         Inl e \<Rightarrow> Inl e
       | Inr True \<Rightarrow>
           (case add_cost b0 amount of
              Inl e \<Rightarrow> Inl e | Inr b' \<Rightarrow> Inr (store t1 contract b'))
       | Inr False \<Rightarrow>
           (case add_profit b0 pnl of
              Inl e \<Rightarrow> Inl e | Inr b' \<Rightarrow> Inr (store t1 contract b')))"
  using ne p a sd unfolding aggregate_row_def c [symmetric] by (simp add: Let_def)

lemma aggregate_row_retained:
  assumes ar: "aggregate_row t r = Inr t'"
    and c: "contract = strip (case r key_contract of None \<Rightarrow> [] | Some v \<Rightarrow> v)"
    and ne: "contract \<noteq> []"
    and p: "parse_decimal (r key_pnl) = Inr pnl"
    and a: "parse_decimal (r key_amount) = Inr amount"
    and b: "b = snd (setdefault t contract)"
  shows "\<exists>b'. map_of t' = (map_of t)(contract \<mapsto> b') \<and>
           (if eq_zero pnl = Inr True
            then dec_add (cost b) amount = Inr (cost b') \<and> profit b' = profit b
            else eq_zero pnl = Inr False \<and> dec_add (profit b) pnl = Inr (profit b') \<and>
                 cost b' = cost b)"
proof -
  obtain t1 b0 where sd: "setdefault t contract = (t1, b0)"
    by (cases "setdefault t contract") simp
  have b0: "b0 = b" using sd b by simp
  have m1: "map_of t1 = (map_of t)(contract \<mapsto> b0)"
    using map_of_setdefault [of t contract] sd by simp
  have st: "map_of (store t1 contract x) = (map_of t)(contract \<mapsto> x)" for x
    by (rule ext) (simp add: map_of_store m1)
  note step = aggregate_row_step [OF c ne p a sd]
  show ?thesis
  proof (cases "eq_zero pnl")
    case (Inl e)
    with ar step show ?thesis by simp
  next
    case (Inr z)
    show ?thesis
    proof (cases z)
      case True
      with Inr ar step obtain b' where "add_cost b0 amount = Inr b'" "t' = store t1 contract b'"
        by (auto split: sum.splits)
      then show ?thesis using Inr True st b0
        by (auto simp: add_cost_def split: sum.splits)
    next
      case False
      with Inr ar step obtain b' where "add_profit b0 pnl = Inr b'" "t' = store t1 contract b'"
        by (auto split: sum.splits)
      then show ?thesis using Inr False st b0
        by (auto simp: add_profit_def split: sum.splits)
    qed
  qed
qed

lemma aggregate_row_raises:
  assumes c: "contract = strip (case r key_contract of None \<Rightarrow> [] | Some v \<Rightarrow> v)"
    and ne: "contract \<noteq> []"
    and p: "parse_decimal (r key_pnl) = Inr pnl"
    and a: "parse_decimal (r key_amount) = Inr amount"
    and b: "b = snd (setdefault t contract)"
  shows "(aggregate_row t r = Inl e) =
         (eq_zero pnl = Inl e \<or>
          eq_zero pnl = Inr True \<and> dec_add (cost b) amount = Inl e \<or>
          eq_zero pnl = Inr False \<and> dec_add (profit b) pnl = Inl e)"
proof -
  obtain t1 b0 where sd: "setdefault t contract = (t1, b0)"
    by (cases "setdefault t contract") simp
  have b0: "b0 = b" using sd b by simp
  note step = aggregate_row_step [OF c ne p a sd]
  show ?thesis
  proof (cases "eq_zero pnl")
    case (Inl e')
    with step show ?thesis by auto
  next
    case (Inr z)
    show ?thesis
    proof (cases z)
      case True
      with Inr step have "(aggregate_row t r = Inl e) = (add_cost b0 amount = Inl e)"
        by (auto split: sum.splits)
      also have "\<dots> = (dec_add (cost b) amount = Inl e)"
        unfolding b0 by (auto simp: add_cost_def split: sum.splits)
      finally show ?thesis using Inr True by simp
    next
      case False
      with Inr step have "(aggregate_row t r = Inl e) = (add_profit b0 pnl = Inl e)"
        by (auto split: sum.splits)
      also have "\<dots> = (dec_add (profit b) pnl = Inl e)"
        unfolding b0 by (auto simp: add_profit_def split: sum.splits)
      finally show ?thesis using Inr False by simp
    qed
  qed
qed

lemma aggregate_contracts_snoc:
  assumes "aggregate_contracts rows = Inr t"
  shows "aggregate_contracts (rows @ [r]) = aggregate_row t r"
  using assms by (simp add: aggregate_contracts_def aggregate_loop_append split: sum.splits)

text \<open>
  Claim C1, as stated, fails: a row whose contract is not blank and whose realized profit
  and loss is the text \<^verbatim>\<open>sNaN\<close> is retained and parsed, and then the comparison of
  the signaling NaN with zero raises \<^verbatim>\<open>InvalidOperation\<close>: the run is aborted and the row
  is added neither to a cost nor to a profit.
\<close>

theorem netting_neither_counterexample:
  "strip (ascii ''BTC'') = ascii ''BTC'' \<and> ascii ''BTC'' \<noteq> [] \<and>
   parse_decimal (Some (ascii ''sNaN'')) = Inr (SNaN False 0) \<and>
   parse_decimal (Some (ascii ''100'')) = Inr (Finite False 100 0) \<and>
   eq_zero (SNaN False 0) = Inl InvalidOperation \<and>
   aggregate_contracts
     [[key_contract \<mapsto> ascii ''BTC'', key_amount \<mapsto> ascii ''100'',
       key_pnl \<mapsto> ascii ''sNaN'']] = Inl InvalidOperation"
  by (simp add: netting_eval)

text \<open>
  Claim C1, amended.  Let a run over \<open>rows\<close> return \<open>t\<close>, and let \<open>r\<close> be one more row
  whose contract is not blank, with \<open>b\<close> the bucket of that contract (a fresh one when the
  contract is new).  The run over \<open>rows\<close> followed by \<open>r\<close> raises an exception exactly when
  the comparison of the parsed realized profit and loss with zero raises it, or that
  comparison gives true and the addition of the parsed notional to the cost raises it, or
  the comparison gives false and the addition of the parsed realized profit and loss to
  the profit raises it; then the row is added to neither.  When the run returns \<open>t'\<close>,
  then \<open>t'\<close> is \<open>t\<close> with the bucket of the contract replaced by \<open>b'\<close>, and: when the
  parsed realized profit and loss equals zero, the cost of \<open>b'\<close> is the cost of \<open>b\<close> plus the
  parsed notional and the profit is untouched; otherwise the profit of \<open>b'\<close> is the profit
  of \<open>b\<close> plus the parsed realized profit and loss and the cost is untouched.
\<close>

theorem netting_discriminant:
  assumes "aggregate_contracts rows = Inr t"
    and "contract = strip (case r key_contract of None \<Rightarrow> [] | Some v \<Rightarrow> v)"
    and "contract \<noteq> []"
    and "parse_decimal (r key_pnl) = Inr pnl"
    and "parse_decimal (r key_amount) = Inr amount"
    and "b = snd (setdefault t contract)"
  shows "(\<forall>e. (aggregate_contracts (rows @ [r]) = Inl e) =
               (eq_zero pnl = Inl e \<or>
                eq_zero pnl = Inr True \<and> dec_add (cost b) amount = Inl e \<or>
                eq_zero pnl = Inr False \<and> dec_add (profit b) pnl = Inl e)) \<and>
         (\<forall>t'. aggregate_contracts (rows @ [r]) = Inr t' \<longrightarrow>
               (\<exists>b'. map_of t' = (map_of t)(contract \<mapsto> b') \<and>
                  (if eq_zero pnl = Inr True
                   then dec_add (cost b) amount = Inr (cost b') \<and> profit b' = profit b
                   else eq_zero pnl = Inr False \<and>
                        dec_add (profit b) pnl = Inr (profit b') \<and> cost b' = cost b)))"
proof (intro conjI allI impI)
  fix e
  from assms(1) have "aggregate_contracts (rows @ [r]) = aggregate_row t r"
    by (rule aggregate_contracts_snoc)
  then show "(aggregate_contracts (rows @ [r]) = Inl e) =
               (eq_zero pnl = Inl e \<or>
                eq_zero pnl = Inr True \<and> dec_add (cost b) amount = Inl e \<or>
                eq_zero pnl = Inr False \<and> dec_add (profit b) pnl = Inl e)"
    using aggregate_row_raises [OF assms(2-6)] by simp
next
  fix t'
  assume "aggregate_contracts (rows @ [r]) = Inr t'"
  with assms(1) have "aggregate_row t r = Inr t'"
    by (simp add: aggregate_contracts_snoc)
  then show "\<exists>b'. map_of t' = (map_of t)(contract \<mapsto> b') \<and>
      (if eq_zero pnl = Inr True
       then dec_add (cost b) amount = Inr (cost b') \<and> profit b' = profit b
       else eq_zero pnl = Inr False \<and> dec_add (profit b) pnl = Inr (profit b') \<and>
            cost b' = cost b)"
    using assms(2-6) by (rule aggregate_row_retained)
qed

theorem netting_discriminant_witness:
  "\<exists>b'. map_of [(ascii ''BTC'', \<lparr>cost = Finite False 100 0, profit = Finite False 50 0\<rparr>)] =
          (map_of [(ascii ''BTC'', \<lparr>cost = Finite False 100 0, profit = Finite False 0 0\<rparr>)])
            (ascii ''BTC'' \<mapsto> b') \<and>
        dec_add (Finite False 0 0) (Finite False 50 0) = Inr (profit b') \<and>
        cost b' = Finite False 100 0"
proof -
  let ?r1 = "[key_contract \<mapsto> ascii ''BTC'', key_amount \<mapsto> ascii ''100'',
              key_pnl \<mapsto> ascii ''0'']"
  let ?r2 = "[key_contract \<mapsto> ascii ''BTC'', key_amount \<mapsto> ascii ''0'',
              key_pnl \<mapsto> ascii ''50'']"
  let ?b = "\<lparr>cost = Finite False 100 0, profit = Finite False 0 0\<rparr>"
  let ?t = "[(ascii ''BTC'', ?b)]"
  let ?t' = "[(ascii ''BTC'', \<lparr>cost = Finite False 100 0, profit = Finite False 50 0\<rparr>)]"
  have h1: "aggregate_contracts [?r1] = Inr ?t" by (simp add: netting_eval)
  have h2: "aggregate_contracts ([?r1] @ [?r2]) = Inr ?t'" by (simp add: netting_eval)
  have h3: "ascii ''BTC'' = strip (case ?r2 key_contract of None \<Rightarrow> [] | Some v \<Rightarrow> v)"
    by (simp add: netting_eval)
  have h4: "ascii ''BTC'' \<noteq> []" by (simp add: ascii_def)
  have h5: "parse_decimal (?r2 key_pnl) = Inr (Finite False 50 0)" by (simp add: netting_eval)
  have h6: "parse_decimal (?r2 key_amount) = Inr (Finite False 0 0)" by (simp add: netting_eval)
  have h7: "?b = snd (setdefault ?t (ascii ''BTC''))" by (simp add: netting_eval)
  from netting_discriminant [OF h1 h3 h4 h5 h6 h7]
  have "\<forall>t'. aggregate_contracts ([?r1] @ [?r2]) = Inr t' \<longrightarrow>
          (\<exists>b'. map_of t' = (map_of ?t)(ascii ''BTC'' \<mapsto> b') \<and>
             (if eq_zero (Finite False 50 0) = Inr True
              then dec_add (cost ?b) (Finite False 0 0) = Inr (cost b') \<and> profit b' = profit ?b
              else eq_zero (Finite False 50 0) = Inr False \<and>
                   dec_add (profit ?b) (Finite False 50 0) = Inr (profit b') \<and>
                   cost b' = cost ?b))"
    by (rule conjunct2)
  then have "\<exists>b'. map_of ?t' = (map_of ?t)(ascii ''BTC'' \<mapsto> b') \<and>
             (if eq_zero (Finite False 50 0) = Inr True
              then dec_add (cost ?b) (Finite False 0 0) = Inr (cost b') \<and> profit b' = profit ?b
              else eq_zero (Finite False 50 0) = Inr False \<and>
                   dec_add (profit ?b) (Finite False 50 0) = Inr (profit b') \<and>
                   cost b' = cost ?b)"
    using h2 by blast
  then show ?thesis by simp
qed

subsection \<open>The schema check\<close>

text \<open>
  Claim C7.  For a file with no record at all the reader has no field names, and the check
  fails with a \<^verbatim>\<open>TypeError\<close> of the membership test, not with the \<^verbatim>\<open>ValueError\<close> that
  names the missing fields.
\<close>

theorem load_rows_without_header:
  "load_rows None records = Inl TypeError"
  by (simp add: load_rows_def)

lemma load_rows_complete_header:
  "set required_fields \<subseteq> set fs \<Longrightarrow> load_rows (Some fs) records = Inr records"
  by (auto simp: load_rows_def Let_def filter_empty_conv)

lemma load_rows_missing_field:
  "\<not> set required_fields \<subseteq> set fs \<Longrightarrow> \<exists>msg. load_rows (Some fs) records = Inl (ValueError msg)"
  by (auto simp: load_rows_def Let_def filter_empty_conv)

subsection \<open>Rounding\<close>

lemma ndigits_upper: "c < 10 ^ ndigits c"
proof (induction c rule: ndigits.induct)
  case (1 n)
  show ?case
  proof (cases "n < 10")
    case True
    then show ?thesis by (simp add: ndigits.simps)
  next
    case False
    with 1 have "n div 10 < 10 ^ ndigits (n div 10)" by simp
    then have "n < 10 * 10 ^ ndigits (n div 10)" by linarith
    with False show ?thesis by (simp add: ndigits.simps [of n])
  qed
qed

lemma ndigits_lower: "0 < c \<Longrightarrow> 10 ^ (ndigits c - 1) \<le> c"
proof (induction c rule: ndigits.induct)
  case (1 n)
  show ?case
  proof (cases "n < 10")
    case True
    with 1(2) show ?thesis by (simp add: ndigits.simps)
  next
    case False
    then have "0 < n div 10" by simp
    with 1(1) False have "10 ^ (ndigits (n div 10) - 1) \<le> n div 10" by simp
    then have "10 * 10 ^ (ndigits (n div 10) - 1) \<le> n" by linarith
    moreover have "0 < ndigits (n div 10)" by (simp add: ndigits.simps [of "n div 10"])
    ultimately have "10 ^ ndigits (n div 10) \<le> n"
      by (cases "ndigits (n div 10)") simp_all
    with False show ?thesis by (simp add: ndigits.simps [of n])
  qed
qed

lemma ndigits_pos: "0 < ndigits c"
  by (simp add: ndigits.simps [of c])

lemma round_half_even_le:
  assumes "c \<le> m * 10 ^ k"
  shows "round_half_even c k \<le> m"
proof -
  let ?p = "(10::nat) ^ k"
  have p: "0 < ?p" by simp
  have q: "c div ?p \<le> m" using assms p
    by (metis div_le_mono nonzero_mult_div_cancel_right less_numeral_extra(3))
  show ?thesis
  proof (cases "c div ?p = m")
    case True
    then have "m * ?p + c mod ?p = c" by (metis div_mult_mod_eq)
    with assms have "c mod ?p = 0" by linarith
    with True show ?thesis by (simp add: round_half_even_def Let_def)
  next
    case False
    with q have "c div ?p < m" by simp
    then show ?thesis by (simp add: round_half_even_def Let_def)
  qed
qed

lemma round_half_even_ge:
  assumes "m * 10 ^ k \<le> c"
  shows "m \<le> round_half_even c k"
proof -
  let ?p = "(10::nat) ^ k"
  have "m \<le> c div ?p" using assms
    by (metis div_le_mono nonzero_mult_div_cancel_right power_not_zero zero_neq_numeral)
  then show ?thesis by (simp add: round_half_even_def Let_def)
qed

lemma powi_split:
  assumes "X \<le> x"
  shows "(10::rat) powi x = of_nat (10 ^ nat (x - X)) * 10 powi X"
proof -
  have "(10::rat) powi x = 10 powi ((x - X) + X)" by simp
  also have "\<dots> = 10 powi (x - X) * 10 powi X" by (rule power_int_add) simp
  also have "(10::rat) powi (x - X) = 10 ^ nat (x - X)"
    using assms by (simp add: power_int_nonneg_exp)
  finally show ?thesis by simp
qed

lemma powi_cancel:
  "(of_nat a * 10 powi X \<le> (of_nat b * 10 powi X :: rat)) = (a \<le> b)"
proof -
  have "0 < (10::rat) powi X" by simp
  then show ?thesis by (simp only: mult_le_cancel_right_pos of_nat_le_iff)
qed

lemma powi_mono: "a \<le> b \<Longrightarrow> (10::rat) powi a \<le> 10 powi b"
  by (rule power_int_increasing) simp_all

text \<open>Rounding a coefficient to the exponent \<open>X\<close> is monotone with respect to the values
  that are multiples of \<open>10 powi X\<close>.\<close>

lemma round_lower_multiple:
  assumes k: "e \<le> X" and x: "X \<le> x"
    and le: "of_nat m * 10 powi x \<le> (of_nat c * 10 powi e :: rat)"
  shows "of_nat m * 10 powi x \<le> (of_nat (round_half_even c (nat (X - e))) * 10 powi X :: rat)"
proof -
  let ?M = "m * 10 ^ nat (x - X)"
  have a: "(of_nat m * 10 powi x :: rat) = of_nat ?M * 10 powi X"
    by (simp add: powi_split [OF x])
  have b: "(of_nat c * 10 powi e :: rat) = of_nat c * 10 powi e" by simp
  have c: "(of_nat ?M * 10 powi X :: rat) = of_nat (?M * 10 ^ nat (X - e)) * 10 powi e"
    by (simp add: powi_split [OF k])
  from le a c have "?M * 10 ^ nat (X - e) \<le> c"
    by (simp only: powi_cancel)
  then have "?M \<le> round_half_even c (nat (X - e))" by (rule round_half_even_ge)
  then show ?thesis unfolding a by (simp only: powi_cancel)
qed

lemma round_upper_multiple:
  assumes k: "e \<le> X" and x: "X \<le> x"
    and le: "(of_nat c * 10 powi e :: rat) \<le> of_nat m * 10 powi x"
  shows "(of_nat (round_half_even c (nat (X - e))) * 10 powi X :: rat) \<le> of_nat m * 10 powi x"
proof -
  let ?M = "m * 10 ^ nat (x - X)"
  have a: "(of_nat m * 10 powi x :: rat) = of_nat ?M * 10 powi X"
    by (simp add: powi_split [OF x])
  have c: "(of_nat ?M * 10 powi X :: rat) = of_nat (?M * 10 ^ nat (X - e)) * 10 powi e"
    by (simp add: powi_split [OF k])
  from le a c have "c \<le> ?M * 10 ^ nat (X - e)"
    by (simp only: powi_cancel)
  then have "round_half_even c (nat (X - e)) \<le> ?M" by (rule round_half_even_le)
  then show ?thesis unfolding a by (simp only: powi_cancel)
qed

lemma powi_nat_mult: "(of_nat (10 ^ n) * 10 powi X :: rat) = 10 powi (int n + X)"
proof -
  have "(10::rat) powi (int n + X) = 10 powi (int n) * 10 powi X"
    by (rule power_int_add) simp
  then show ?thesis by simp
qed

lemma Etiny_le_Emax: "Etiny \<le> Emax"
  by (simp add: Etiny_def Emax_def Emin_def prec_def)

text \<open>The rounding case of \<open>dec_fix\<close>: the coefficient \<open>c\<close> has more digits than the
  exponent \<open>X\<close> allows.\<close>

lemma round_coefficient_le:
  assumes "int (ndigits c) + e - int prec \<le> X" and "e \<le> X"
  shows "round_half_even c (nat (X - e)) \<le> 10 ^ prec"
proof (rule round_half_even_le)
  from assms have "ndigits c \<le> prec + nat (X - e)" by linarith
  then have "(10::nat) ^ ndigits c \<le> 10 ^ (prec + nat (X - e))"
    by (rule power_increasing) simp
  with ndigits_upper [of c] show "c \<le> 10 ^ prec * 10 ^ nat (X - e)"
    by (simp add: power_add)
qed

lemma round_coefficient_ge:
  assumes "0 < c" and "X = int (ndigits c) + e - int prec" and "e \<le> X"
  shows "10 ^ (prec - 1) \<le> round_half_even c (nat (X - e))"
proof (rule round_half_even_ge)
  have "0 < prec" by (simp add: prec_def)
  with assms have "prec - 1 + nat (X - e) = ndigits c - 1" by linarith
  then have "(10::nat) ^ (prec - 1) * 10 ^ nat (X - e) = 10 ^ (ndigits c - 1)"
    by (simp add: power_add [symmetric])
  with ndigits_lower [OF assms(1)] show "10 ^ (prec - 1) * 10 ^ nat (X - e) \<le> c"
    by simp
qed

lemma below_rounding_exponent:
  assumes m: "m < 10 ^ prec" and x: "x < X"
  shows "(of_nat m * 10 powi x :: rat) < 10 powi (int prec - 1 + X)"
proof -
  have "(of_nat m :: rat) < of_nat (10 ^ prec)" using m by (simp only: of_nat_less_iff)
  then have "(of_nat m * 10 powi x :: rat) < of_nat (10 ^ prec) * 10 powi x"
    by (simp only: mult_less_cancel_right_pos zero_less_power_int zero_less_numeral)
  also have "\<dots> = 10 powi (int prec + x)" by (rule powi_nat_mult)
  also have "\<dots> \<le> 10 powi (int prec - 1 + X)" using x by (intro powi_mono) simp
  finally show ?thesis .
qed

lemma dec_fix_rounds:
  assumes fx: "dec_fix s c e = Inr r"
  obtains c' e' where "r = Finite s c' e'" and "c' < 10 ^ prec" and "Etiny \<le> e'"
    and "\<And>m x. m < 10 ^ prec \<Longrightarrow> Etiny \<le> x \<Longrightarrow>
           of_nat m * 10 powi x \<le> (of_nat c * 10 powi e :: rat) \<Longrightarrow>
           of_nat m * 10 powi x \<le> (of_nat c' * 10 powi e' :: rat)"
    and "\<And>m x. m < 10 ^ prec \<Longrightarrow> Etiny \<le> x \<Longrightarrow>
           (of_nat c * 10 powi e :: rat) \<le> of_nat m * 10 powi x \<Longrightarrow>
           (of_nat c' * 10 powi e' :: rat) \<le> of_nat m * 10 powi x"
proof (cases "c = 0")
  case True
  with fx have r: "r = Finite s 0 (min (max e Etiny) Emax)" by (simp add: dec_fix_def)
  show ?thesis
  proof (rule that [OF r])
    show "(0::nat) < 10 ^ prec" by simp
    show "Etiny \<le> min (max e Etiny) Emax" using Etiny_le_Emax by simp
  next
    fix m x
    assume "of_nat m * 10 powi x \<le> (of_nat c * 10 powi e :: rat)"
    with True show "of_nat m * 10 powi x \<le> (of_nat 0 * 10 powi min (max e Etiny) Emax :: rat)"
      by simp
  next
    fix m x
    show "(of_nat 0 * 10 powi min (max e Etiny) Emax :: rat) \<le> of_nat m * 10 powi x"
      by simp
  qed
next
  case False
  then have cpos: "0 < c" by simp
  define E0 where "E0 = int (ndigits c) + e - int prec"
  define X where "X = max E0 Etiny"
  have XE: "Etiny \<le> X" and XE0: "E0 \<le> X" by (simp_all add: X_def)
  from fx False have noov: "\<not> Etop < E0"
    by (auto simp: dec_fix_def Let_def E0_def split: if_splits)
  show ?thesis
  proof (cases "e < X")
    case False
    with fx cpos noov have r: "r = Finite s c e"
      by (simp add: dec_fix_def Let_def E0_def [symmetric] X_def [symmetric])
    from False XE0 have "ndigits c \<le> prec" by (simp add: E0_def)
    then have "(10::nat) ^ ndigits c \<le> 10 ^ prec" by (rule power_increasing) simp
    with ndigits_upper [of c] have small: "c < 10 ^ prec" by linarith
    from False XE have inside: "Etiny \<le> e" by simp
    from r small inside show ?thesis by (rule that)
  next
    case True
    then have eX: "e \<le> X" by simp
    define c2 where "c2 = round_half_even c (nat (X - e))"
    have c2le: "c2 \<le> 10 ^ prec"
      unfolding c2_def using XE0 eX unfolding E0_def by (rule round_coefficient_le)
    have lower: "of_nat m * 10 powi x \<le> (of_nat c2 * 10 powi X :: rat)"
      if m: "m < 10 ^ prec" and x: "Etiny \<le> x"
        and le: "of_nat m * 10 powi x \<le> (of_nat c * 10 powi e :: rat)" for m x
    proof (cases "X \<le> x")
      case True
      from eX True le show ?thesis unfolding c2_def by (rule round_lower_multiple)
    next
      case False
      with x have XE0': "X = int (ndigits c) + e - int prec" by (simp add: X_def E0_def)
      from False have "x < X" by simp
      with m have "(of_nat m * 10 powi x :: rat) < 10 powi (int prec - 1 + X)"
        by (rule below_rounding_exponent)
      also have "int prec - 1 + X = int (prec - 1) + X" by (simp add: prec_def)
      also have "(10::rat) powi (int (prec - 1) + X) = of_nat (10 ^ (prec - 1)) * 10 powi X"
        by (simp only: powi_nat_mult)
      also have "\<dots> \<le> of_nat c2 * 10 powi X"
        unfolding c2_def powi_cancel using cpos XE0' eX by (rule round_coefficient_ge)
      finally show ?thesis by simp
    qed
    have upper: "(of_nat c2 * 10 powi X :: rat) \<le> of_nat m * 10 powi x"
      if m: "m < 10 ^ prec" and x: "Etiny \<le> x"
        and le: "(of_nat c * 10 powi e :: rat) \<le> of_nat m * 10 powi x" for m x
    proof (cases "X \<le> x")
      case True
      from eX True le show ?thesis unfolding c2_def by (rule round_upper_multiple)
    next
      case False
      with x have XE0': "X = int (ndigits c) + e - int prec" by (simp add: X_def E0_def)
      from False have "x < X" by simp
      with m have "(of_nat m * 10 powi x :: rat) < 10 powi (int prec - 1 + X)"
        by (rule below_rounding_exponent)
      also have "int prec - 1 + X = int (ndigits c - 1) + e"
        using XE0' ndigits_pos [of c] by simp
      also have "(10::rat) powi (int (ndigits c - 1) + e) = of_nat (10 ^ (ndigits c - 1)) * 10 powi e"
        by (simp only: powi_nat_mult)
      also have "\<dots> \<le> of_nat c * 10 powi e"
        unfolding powi_cancel using cpos by (rule ndigits_lower)
      finally have "(of_nat m * 10 powi x :: rat) < of_nat c * 10 powi e" .
      with le show ?thesis by simp
    qed
    show ?thesis
    proof (cases "10 ^ prec \<le> c2")
      case carry: True
      with c2le have c2: "c2 = 10 ^ prec" by simp
      from fx cpos noov True carry have r: "r = Finite s (c2 div 10) (X + 1)"
        by (auto simp: dec_fix_def Let_def E0_def [symmetric] X_def [symmetric]
            c2_def [symmetric] split: if_splits)
      have d: "(10::nat) ^ prec div 10 = 10 ^ (prec - 1)" by (simp add: prec_def)
      have "int (prec - 1) + (X + 1) = int prec + X" by (simp add: prec_def)
      then have "(of_nat (10 ^ (prec - 1)) * 10 powi (X + 1) :: rat) = of_nat (10 ^ prec) * 10 powi X"
        by (simp only: powi_nat_mult)
      then have v: "(of_nat (c2 div 10) * 10 powi (X + 1) :: rat) = of_nat c2 * 10 powi X"
        unfolding c2 d .
      show ?thesis
      proof (rule that [OF r])
        show "c2 div 10 < 10 ^ prec" unfolding c2 d by (simp add: prec_def)
        show "Etiny \<le> X + 1" using XE by simp
      next
        fix m x
        assume "m < 10 ^ prec" "Etiny \<le> x" "of_nat m * 10 powi x \<le> (of_nat c * 10 powi e :: rat)"
        then show "of_nat m * 10 powi x \<le> (of_nat (c2 div 10) * 10 powi (X + 1) :: rat)"
          unfolding v by (rule lower)
      next
        fix m x
        assume "m < 10 ^ prec" "Etiny \<le> x" "(of_nat c * 10 powi e :: rat) \<le> of_nat m * 10 powi x"
        then show "(of_nat (c2 div 10) * 10 powi (X + 1) :: rat) \<le> of_nat m * 10 powi x"
          unfolding v by (rule upper)
      qed
    next
      case nocarry: False
      from fx cpos noov True nocarry have r: "r = Finite s c2 X"
        by (auto simp: dec_fix_def Let_def E0_def [symmetric] X_def [symmetric]
            c2_def [symmetric] split: if_splits)
      show ?thesis
      proof (rule that [OF r])
        show "c2 < 10 ^ prec" using nocarry by simp
        show "Etiny \<le> X" by (rule XE)
      next
        fix m x
        assume "m < 10 ^ prec" "Etiny \<le> x" "of_nat m * 10 powi x \<le> (of_nat c * 10 powi e :: rat)"
        then show "of_nat m * 10 powi x \<le> (of_nat c2 * 10 powi X :: rat)" by (rule lower)
      next
        fix m x
        assume "m < 10 ^ prec" "Etiny \<le> x" "(of_nat c * 10 powi e :: rat) \<le> of_nat m * 10 powi x"
        then show "(of_nat c2 * 10 powi X :: rat) \<le> of_nat m * 10 powi x" by (rule upper)
      qed
    qed
  qed
qed

lemma signed_mult: "signed s (c * n) = signed s c * int n"
  by (simp add: signed_def)

lemma finite_value_scaled:
  assumes "e \<le> e1"
  shows "finite_value s c e1 = of_int (signed s (c * 10 ^ nat (e1 - e))) * 10 powi e"
  by (simp add: finite_value_def signed_mult powi_split [OF assms])

lemma of_int_powi_less:
  "(of_int a * 10 powi e < (of_int b * 10 powi e :: rat)) = (a < b)"
proof -
  have "0 < (10::rat) powi e" by simp
  then show ?thesis by (simp only: mult_less_cancel_right_pos of_int_less_iff)
qed

lemma dec_less_finite:
  "dec_less (Finite s1 c1 e1) (Finite s2 c2 e2) =
     (finite_value s1 c1 e1 < finite_value s2 c2 e2)"
proof -
  have 1: "min e1 e2 \<le> e1" and 2: "min e1 e2 \<le> e2" by simp_all
  show ?thesis
    unfolding finite_value_scaled [OF 1] finite_value_scaled [OF 2] of_int_powi_less
    by (simp add: Let_def)
qed

lemma finite_value_sum:
  "of_int (signed s1 (c1 * 10 ^ nat (e1 - min e1 e2)) + signed s2 (c2 * 10 ^ nat (e2 - min e1 e2))) *
     10 powi (min e1 e2) = finite_value s1 c1 e1 + finite_value s2 c2 e2"
proof -
  have 1: "min e1 e2 \<le> e1" and 2: "min e1 e2 \<le> e2" by simp_all
  show ?thesis
    unfolding finite_value_scaled [OF 1] finite_value_scaled [OF 2]
    by (simp add: algebra_simps)
qed

lemma finite_value_False: "finite_value False c e = of_nat c * 10 powi e"
  by (simp add: finite_value_def signed_def)

lemma finite_value_True: "finite_value True c e = - (of_nat c * 10 powi e)"
  by (simp add: finite_value_def signed_def)

lemma finite_value_zero [simp]: "finite_value s 0 e = 0"
  by (simp add: finite_value_def signed_def)

lemma dec_fix_representable:
  assumes "dec_fix s c e = Inr r"
  shows "representable r"
  using assms by (rule dec_fix_rounds) simp

lemma dec_add_representable:
  assumes "dec_add a b = Inr r"
  shows "representable r"
  using assms
proof (cases a; cases b)
  fix s1 c1 e1 s2 c2 e2
  assume "dec_add a b = Inr r" and "a = Finite s1 c1 e1" and "b = Finite s2 c2 e2"
  then show ?thesis
    by (auto simp: Let_def split: if_splits intro: dec_fix_representable)
qed (auto simp: fix_nan_def split: if_splits)

text \<open>Adding a value that is not negative to a representable value does not give less.\<close>

lemma dec_less_irrefl: "\<not> dec_less a a"
  by (cases a) (simp_all add: Let_def)

lemma dec_add_finite_monotone:
  assumes rep: "c1 < 10 ^ prec" "Etiny \<le> e1"
    and nonneg: "0 \<le> finite_value s2 c2 e2"
    and add: "dec_add (Finite s1 c1 e1) (Finite s2 c2 e2) = Inr r"
  shows "\<not> dec_less r (Finite s1 c1 e1)"
proof -
  define e where "e = min e1 e2"
  define v where "v = signed s1 (c1 * 10 ^ nat (e1 - e)) + signed s2 (c2 * 10 ^ nat (e2 - e))"
  have sum: "of_int v * 10 powi e = finite_value s1 c1 e1 + finite_value s2 c2 e2"
    unfolding v_def e_def by (rule finite_value_sum)
  have vsign: "(0 < v) = (0 < finite_value s1 c1 e1 + finite_value s2 c2 e2)"
    "(v < 0) = (finite_value s1 c1 e1 + finite_value s2 c2 e2 < 0)"
    using of_int_powi_less [of 0 e v] of_int_powi_less [of v e 0] by (simp_all add: sum)
  consider "v = 0" | "0 < v" | "v < 0" by linarith
  then show ?thesis
  proof cases
    case 1
    with add have "dec_fix (c1 = 0 \<and> c2 = 0 \<and> s1 \<and> s2) 0 e = Inr r"
      by (simp add: Let_def e_def v_def)
    then obtain c' e' where r: "r = Finite (c1 = 0 \<and> c2 = 0 \<and> s1 \<and> s2) c' e'"
      and up: "\<And>m x. m < 10 ^ prec \<Longrightarrow> Etiny \<le> x \<Longrightarrow>
           (of_nat 0 * 10 powi e :: rat) \<le> of_nat m * 10 powi x \<Longrightarrow>
           (of_nat c' * 10 powi e' :: rat) \<le> of_nat m * 10 powi x"
      by (rule dec_fix_rounds) blast
    have "(of_nat c' * 10 powi e' :: rat) \<le> of_nat 0 * 10 powi Etiny"
      by (rule up) simp_all
    then have "(of_nat c' * 10 powi e' :: rat) \<le> 0" by simp
    moreover have "0 \<le> (of_nat c' * 10 powi e' :: rat)" by simp
    ultimately have z: "(of_nat c' * 10 powi e' :: rat) = 0" by (rule antisym)
    have "finite_value sg c' e' = 0" for sg
      using z by (cases sg) (simp_all add: finite_value_False finite_value_True)
    then have "finite_value (c1 = 0 \<and> c2 = 0 \<and> s1 \<and> s2) c' e' = 0" .
    moreover from 1 sum nonneg have "finite_value s1 c1 e1 \<le> 0" by simp
    ultimately show ?thesis unfolding r dec_less_finite by simp
  next
    case 2
    with add have "dec_fix False (nat v) e = Inr r"
      by (simp add: Let_def e_def v_def)
    then obtain c' e' where r: "r = Finite False c' e'"
      and low: "\<And>m x. m < 10 ^ prec \<Longrightarrow> Etiny \<le> x \<Longrightarrow>
           of_nat m * 10 powi x \<le> (of_nat (nat v) * 10 powi e :: rat) \<Longrightarrow>
           of_nat m * 10 powi x \<le> (of_nat c' * 10 powi e' :: rat)"
      by (rule dec_fix_rounds) blast
    have v: "(of_nat (nat v) * 10 powi e :: rat) = finite_value s1 c1 e1 + finite_value s2 c2 e2"
      using 2 sum by simp
    show ?thesis
    proof (cases s1)
      case True
      have "finite_value s1 c1 e1 \<le> 0" using True by (simp add: finite_value_True)
      moreover have "0 \<le> finite_value False c' e'" unfolding finite_value_False by simp
      ultimately show ?thesis unfolding r dec_less_finite by simp
    next
      case False
      have "of_nat c1 * 10 powi e1 \<le> (of_nat (nat v) * 10 powi e :: rat)"
        unfolding v using nonneg by (simp add: False finite_value_False)
      with rep have "of_nat c1 * 10 powi e1 \<le> (of_nat c' * 10 powi e' :: rat)"
        by (rule low)
      then show ?thesis unfolding r dec_less_finite using False
        by (simp add: finite_value_False)
    qed
  next
    case 3
    with add have "dec_fix True (nat \<bar>v\<bar>) e = Inr r"
      by (simp add: Let_def e_def v_def)
    then obtain c' e' where r: "r = Finite True c' e'"
      and up: "\<And>m x. m < 10 ^ prec \<Longrightarrow> Etiny \<le> x \<Longrightarrow>
           (of_nat (nat \<bar>v\<bar>) * 10 powi e :: rat) \<le> of_nat m * 10 powi x \<Longrightarrow>
           (of_nat c' * 10 powi e' :: rat) \<le> of_nat m * 10 powi x"
      by (rule dec_fix_rounds) blast
    have "(of_nat (nat \<bar>v\<bar>) :: rat) = - of_int v" using 3 by simp
    then have v: "(of_nat (nat \<bar>v\<bar>) * 10 powi e :: rat) =
        - (finite_value s1 c1 e1 + finite_value s2 c2 e2)"
      using sum by simp
    from 3 vsign(2) nonneg have neg: "finite_value s1 c1 e1 < 0" by simp
    have s1: s1
    proof (rule ccontr)
      assume "\<not> s1"
      then have "0 \<le> finite_value s1 c1 e1" by (simp add: finite_value_False)
      with neg show False by simp
    qed
    have "(of_nat (nat \<bar>v\<bar>) * 10 powi e :: rat) \<le> of_nat c1 * 10 powi e1"
      unfolding v using nonneg s1 by (simp add: finite_value_True)
    with rep have "(of_nat c' * 10 powi e' :: rat) \<le> of_nat c1 * 10 powi e1"
      by (rule up)
    then show ?thesis unfolding r dec_less_finite using s1 by (simp add: finite_value_True)
  qed
qed

subsection \<open>Accumulators\<close>

lemma dec_add_monotone:
  assumes "representable a" and "\<not> dec_less b zero" and "dec_add a b = Inr r"
  shows "\<not> dec_less r a"
  using assms
proof (cases a; cases b)
  fix s1 c1 e1 s2 c2 e2
  assume a: "a = Finite s1 c1 e1" and b: "b = Finite s2 c2 e2"
  from assms(2) have "0 \<le> finite_value s2 c2 e2"
    unfolding b zero_def dec_less_finite by simp
  with assms(1,3) show ?thesis unfolding a b
    by (intro dec_add_finite_monotone) simp_all
qed (auto simp: fix_nan_def zero_def split: if_splits)

lemma aggregate_row_skipped:
  "strip (case r key_contract of None \<Rightarrow> [] | Some v \<Rightarrow> v) = [] \<Longrightarrow> aggregate_row t r = Inr t"
  by (simp add: aggregate_row_def)

lemma setdefault_bucket:
  "snd (setdefault t k) = (case map_of t k of None \<Rightarrow> ContractAggregation_init | Some b \<Rightarrow> b)"
  by (simp add: setdefault_def split: option.splits)

lemma representable_zero: "representable zero"
  by (simp add: zero_def Etiny_def Emin_def prec_def)

lemma aggregate_row_representable:
  assumes row: "aggregate_row t r = Inr t'"
    and inv: "\<And>k b. map_of t k = Some b \<Longrightarrow> representable (cost b) \<and> representable (profit b)"
    and b': "map_of t' k = Some b'"
  shows "representable (cost b') \<and> representable (profit b')"
proof (cases "strip (case r key_contract of None \<Rightarrow> [] | Some v \<Rightarrow> v) = []")
  case True
  with row have "t' = t" by (simp add: aggregate_row_skipped)
  with b' inv show ?thesis by simp
next
  case False
  define contract where "contract = strip (case r key_contract of None \<Rightarrow> [] | Some v \<Rightarrow> v)"
  obtain pnl where pnl: "parse_decimal (r key_pnl) = Inr pnl"
    using parse_decimal_total by blast
  obtain amount where amount: "parse_decimal (r key_amount) = Inr amount"
    using parse_decimal_total by blast
  define b where "b = snd (setdefault t contract)"
  have bb: "representable (cost b) \<and> representable (profit b)"
    unfolding b_def setdefault_bucket
    by (cases "map_of t contract")
      (simp_all add: inv ContractAggregation_init_def representable_zero)
  from False have ne: "contract \<noteq> []" by (simp add: contract_def)
  from aggregate_row_retained [OF row contract_def ne pnl amount b_def]
  obtain b2 where t': "map_of t' = (map_of t)(contract \<mapsto> b2)"
    and upd: "if eq_zero pnl = Inr True
              then dec_add (cost b) amount = Inr (cost b2) \<and> profit b2 = profit b
              else eq_zero pnl = Inr False \<and> dec_add (profit b) pnl = Inr (profit b2) \<and>
                   cost b2 = cost b"
    by blast
  have "representable (cost b2) \<and> representable (profit b2)"
    using upd bb by (auto split: if_splits dest: dec_add_representable)
  with b' t' inv show ?thesis by (cases "k = contract") simp_all
qed

lemma aggregate_loop_representable:
  assumes "aggregate_loop t rows = Inr t'"
    and "\<And>k b. map_of t k = Some b \<Longrightarrow> representable (cost b) \<and> representable (profit b)"
    and "map_of t' k = Some b'"
  shows "representable (cost b') \<and> representable (profit b')"
  using assms
proof (induction rows arbitrary: t)
  case Nil
  then show ?case by simp
next
  case (Cons r rows)
  from Cons.prems(1) obtain t1 where r: "aggregate_row t r = Inr t1"
    and rest: "aggregate_loop t1 rows = Inr t'"
    by (auto split: sum.splits)
  show ?case
  proof (rule Cons.IH [OF rest _ Cons.prems(3)])
    fix k b
    assume "map_of t1 k = Some b"
    with r Cons.prems(2) show "representable (cost b) \<and> representable (profit b)"
      by (rule aggregate_row_representable)
  qed
qed

lemma of_int_powi_le:
  "(of_int a * 10 powi e \<le> (of_int b * 10 powi e :: rat)) = (a \<le> b)"
proof -
  have "0 < (10::rat) powi e" by simp
  then show ?thesis by (simp only: mult_le_cancel_right_pos of_int_le_iff)
qed

lemma dec_le_finite:
  "dec_le (Finite s1 c1 e1) (Finite s2 c2 e2) =
     (finite_value s1 c1 e1 \<le> finite_value s2 c2 e2)"
proof -
  have 1: "min e1 e2 \<le> e1" and 2: "min e1 e2 \<le> e2" by simp_all
  show ?thesis
    unfolding finite_value_scaled [OF 1] finite_value_scaled [OF 2] of_int_powi_le
    by (simp add: Let_def)
qed

lemma dec_le_refl: "is_number a \<Longrightarrow> dec_le a a"
  by (cases a) (simp_all add: Let_def)

lemma dec_add_finite_shape:
  assumes "dec_add (Finite s1 c1 e1) (Finite s2 c2 e2) = Inr r"
  shows "\<exists>s c e. r = Finite s c e"
proof -
  from assms obtain sg v e where "dec_fix sg v e = Inr r"
    by (auto simp: Let_def split: if_splits)
  then show ?thesis by (rule dec_fix_rounds) blast
qed

text \<open>Adding a number that is not negative to an accumulator that is a number gives a
  number that is not less.\<close>

lemma dec_add_increases:
  assumes rep: "representable a" and num: "is_number a" and nonneg: "dec_le zero b"
    and add: "dec_add a b = Inr r"
  shows "dec_le a r"
proof (cases a)
  case a: (Finite s1 c1 e1)
  show ?thesis
  proof (cases b)
    case b: (Finite s2 c2 e2)
    from nonneg have "\<not> dec_less b zero"
      unfolding b zero_def dec_less_finite dec_le_finite by simp
    with rep have nl: "\<not> dec_less r a" using add by (rule dec_add_monotone)
    from add obtain s c e where r: "r = Finite s c e"
      unfolding a b using dec_add_finite_shape by blast
    from nl show ?thesis unfolding a r dec_less_finite dec_le_finite by simp
  next
    case (Infinite t)
    with a nonneg add show ?thesis by (auto simp: zero_def)
  next
    case (QNaN t p)
    with nonneg show ?thesis by (simp add: zero_def)
  next
    case (SNaN t p)
    with nonneg show ?thesis by (simp add: zero_def)
  qed
next
  case a: (Infinite s)
  with nonneg add show ?thesis
    by (cases b) (auto simp: zero_def split: if_splits)
next
  case (QNaN s p)
  with num show ?thesis by simp
next
  case (SNaN s p)
  with num show ?thesis by simp
qed

text \<open>
  Claim C9, as stated, fails: a row with a negative realized profit and loss (a loss)
  decreases the profit of its contract, here from 50 to -30.
\<close>

theorem accumulator_decrease_counterexample:
  "aggregate_contracts
     [[key_contract \<mapsto> ascii ''BTC'', key_amount \<mapsto> ascii ''0'', key_pnl \<mapsto> ascii ''50'']] =
     Inr [(ascii ''BTC'', \<lparr>cost = Finite False 0 0, profit = Finite False 50 0\<rparr>)] \<and>
   aggregate_contracts
     [[key_contract \<mapsto> ascii ''BTC'', key_amount \<mapsto> ascii ''0'', key_pnl \<mapsto> ascii ''50''],
      [key_contract \<mapsto> ascii ''BTC'', key_amount \<mapsto> ascii ''0'', key_pnl \<mapsto> ascii ''-80'']] =
     Inr [(ascii ''BTC'', \<lparr>cost = Finite False 0 0, profit = Finite True 30 0\<rparr>)] \<and>
   dec_less (Finite True 30 0) (Finite False 50 0)"
  by (simp add: netting_eval)

text \<open>
  Claim C9, amended.  The cost and the profit of a fresh bucket are exact zero.  Let a run
  over \<open>rows\<close> return \<open>t\<close> and the run over \<open>rows\<close> followed by one more row \<open>r\<close> return
  \<open>t'\<close>.  Then every contract that has a bucket in \<open>t\<close> has one in \<open>t'\<close>.  And when the
  value that \<open>r\<close> adds (its parsed notional when its parsed realized profit and loss
  equals zero, its parsed realized profit and loss otherwise) is a number greater than or
  equal to zero, then for every contract \<open>k\<close> with a bucket \<open>b'\<close> in \<open>t'\<close> whose
  accumulators before the row are numbers, the cost and the profit of \<open>b'\<close> are greater
  than or equal to the cost and the profit before the row; the accumulators before the row
  are those of the bucket that \<^verbatim>\<open>setdefault\<close> gives for \<open>k\<close> in \<open>t\<close>: the bucket of \<open>k\<close>, or
  a fresh one when \<open>k\<close> has none.
\<close>

theorem accumulators_monotone:
  assumes "aggregate_contracts rows = Inr t"
    and "aggregate_contracts (rows @ [r]) = Inr t'"
  shows "cost ContractAggregation_init = zero \<and> profit ContractAggregation_init = zero \<and>
         dom (map_of t) \<subseteq> dom (map_of t') \<and>
         (\<forall>pnl amount k b'.
            parse_decimal (r key_pnl) = Inr pnl \<longrightarrow>
            parse_decimal (r key_amount) = Inr amount \<longrightarrow>
            dec_le zero (if eq_zero pnl = Inr True then amount else pnl) \<longrightarrow>
            is_number (cost (snd (setdefault t k))) \<longrightarrow>
            is_number (profit (snd (setdefault t k))) \<longrightarrow>
            map_of t' k = Some b' \<longrightarrow>
            dec_le (cost (snd (setdefault t k))) (cost b') \<and>
            dec_le (profit (snd (setdefault t k))) (profit b'))"
proof -
  from assms have row: "aggregate_row t r = Inr t'"
    by (simp add: aggregate_contracts_snoc)
  have inv: "representable (cost x) \<and> representable (profit x)" if "map_of t j = Some x" for j x
    using assms(1) _ that unfolding aggregate_contracts_def
    by (rule aggregate_loop_representable) simp
  have rep: "representable (cost (snd (setdefault t k))) \<and>
             representable (profit (snd (setdefault t k)))" for k
    unfolding setdefault_bucket
    by (cases "map_of t k") (simp_all add: inv ContractAggregation_init_def representable_zero)
  have init: "cost ContractAggregation_init = zero \<and> profit ContractAggregation_init = zero"
    by (simp add: ContractAggregation_init_def)
  show ?thesis
  proof (cases "strip (case r key_contract of None \<Rightarrow> [] | Some v \<Rightarrow> v) = []")
    case True
    with row have same: "t' = t" by (simp add: aggregate_row_skipped)
    have "dec_le (cost (snd (setdefault t k))) (cost b') \<and>
          dec_le (profit (snd (setdefault t k))) (profit b')"
      if "map_of t' k = Some b'" and "is_number (cost (snd (setdefault t k)))"
        and "is_number (profit (snd (setdefault t k)))" for k b'
    proof -
      from that(1) same have "snd (setdefault t k) = b'" by (simp add: setdefault_bucket)
      with that(2,3) show ?thesis by (simp add: dec_le_refl)
    qed
    moreover have "dom (map_of t) \<subseteq> dom (map_of t')" unfolding same by (rule subset_refl)
    ultimately show ?thesis using init by (intro conjI allI impI) simp_all
  next
    case False
    define contract where "contract = strip (case r key_contract of None \<Rightarrow> [] | Some v \<Rightarrow> v)"
    define b1 where "b1 = snd (setdefault t contract)"
    from False have ne: "contract \<noteq> []" by (simp add: contract_def)
    obtain pnl0 where pnl0: "parse_decimal (r key_pnl) = Inr pnl0"
      using parse_decimal_total by blast
    obtain amount0 where amount0: "parse_decimal (r key_amount) = Inr amount0"
      using parse_decimal_total by blast
    from aggregate_row_retained [OF row contract_def ne pnl0 amount0 b1_def]
    obtain b2 where t': "map_of t' = (map_of t)(contract \<mapsto> b2)"
      and upd: "if eq_zero pnl0 = Inr True
                then dec_add (cost b1) amount0 = Inr (cost b2) \<and> profit b2 = profit b1
                else eq_zero pnl0 = Inr False \<and> dec_add (profit b1) pnl0 = Inr (profit b2) \<and>
                     cost b2 = cost b1"
      by blast
    have dom: "dom (map_of t) \<subseteq> dom (map_of t')" unfolding t' by auto
    have mono: "dec_le (cost (snd (setdefault t k))) (cost b') \<and>
                dec_le (profit (snd (setdefault t k))) (profit b')"
      if pnl: "parse_decimal (r key_pnl) = Inr pnl"
        and amount: "parse_decimal (r key_amount) = Inr amount"
        and nonneg: "dec_le zero (if eq_zero pnl = Inr True then amount else pnl)"
        and nc: "is_number (cost (snd (setdefault t k)))"
        and np: "is_number (profit (snd (setdefault t k)))"
        and b': "map_of t' k = Some b'" for pnl amount k b'
    proof (cases "k = contract")
      case False
      with b' t' have "snd (setdefault t k) = b'" by (simp add: setdefault_bucket)
      with nc np show ?thesis by (simp add: dec_le_refl)
    next
      case True
      with b' t' have b'2: "b' = b2" by simp
      from True have bb1: "snd (setdefault t k) = b1" by (simp add: b1_def)
      from pnl pnl0 have p0: "pnl0 = pnl" by simp
      from amount amount0 have a0: "amount0 = amount" by simp
      show ?thesis
      proof (cases "eq_zero pnl = Inr True")
        case z: True
        with upd have add: "dec_add (cost b1) amount = Inr (cost b2)"
          and same: "profit b2 = profit b1"
          by (simp_all add: p0 a0)
        from nonneg z have nn: "dec_le zero amount" by simp
        from rep [of k] have "representable (cost b1)" by (simp add: bb1)
        moreover from nc have "is_number (cost b1)" by (simp add: bb1)
        ultimately have "dec_le (cost b1) (cost b2)" using nn add by (rule dec_add_increases)
        moreover from np have "dec_le (profit b1) (profit b2)"
          unfolding same by (simp add: bb1 dec_le_refl)
        ultimately show ?thesis unfolding b'2 bb1 by simp
      next
        case nz: False
        with upd have add: "dec_add (profit b1) pnl = Inr (profit b2)"
          and same: "cost b2 = cost b1"
          by (simp_all add: p0 a0)
        from nonneg nz have nn: "dec_le zero pnl" by simp
        from rep [of k] have "representable (profit b1)" by (simp add: bb1)
        moreover from np have "is_number (profit b1)" by (simp add: bb1)
        ultimately have "dec_le (profit b1) (profit b2)" using nn add by (rule dec_add_increases)
        moreover from nc have "dec_le (cost b1) (cost b2)"
          unfolding same by (simp add: bb1 dec_le_refl)
        ultimately show ?thesis unfolding b'2 bb1 by simp
      qed
    qed
    show ?thesis
    proof (intro conjI allI impI)
      show "cost ContractAggregation_init = zero" using init by simp
      show "profit ContractAggregation_init = zero" using init by simp
      show "dom (map_of t) \<subseteq> dom (map_of t')" by (rule dom)
    next
      fix pnl amount k b'
      assume "parse_decimal (r key_pnl) = Inr pnl" "parse_decimal (r key_amount) = Inr amount"
        "dec_le zero (if eq_zero pnl = Inr True then amount else pnl)"
        "is_number (cost (snd (setdefault t k)))" "is_number (profit (snd (setdefault t k)))"
        "map_of t' k = Some b'"
      then have m: "dec_le (cost (snd (setdefault t k))) (cost b') \<and>
                dec_le (profit (snd (setdefault t k))) (profit b')"
        by (rule mono)
      from m show "dec_le (cost (snd (setdefault t k))) (cost b')" by simp
      from m show "dec_le (profit (snd (setdefault t k))) (profit b')" by simp
    qed
  qed
qed

theorem accumulators_monotone_witness:
  "dom (map_of [(ascii ''BTC'', \<lparr>cost = Finite False 100 0, profit = Finite False 0 0\<rparr>)]) \<subseteq>
     dom (map_of [(ascii ''BTC'', \<lparr>cost = Finite False 100 0, profit = Finite False 50 0\<rparr>)]) \<and>
   dec_le (Finite False 100 0) (Finite False 100 0) \<and>
   dec_le (Finite False 0 0) (Finite False 50 0)"
proof -
  let ?r1 = "[key_contract \<mapsto> ascii ''BTC'', key_amount \<mapsto> ascii ''100'',
              key_pnl \<mapsto> ascii ''0'']"
  let ?r2 = "[key_contract \<mapsto> ascii ''BTC'', key_amount \<mapsto> ascii ''0'',
              key_pnl \<mapsto> ascii ''50'']"
  let ?b = "\<lparr>cost = Finite False 100 0, profit = Finite False 0 0\<rparr>"
  let ?b' = "\<lparr>cost = Finite False 100 0, profit = Finite False 50 0\<rparr>"
  let ?t = "[(ascii ''BTC'', ?b)]"
  let ?t' = "[(ascii ''BTC'', ?b')]"
  have h1: "aggregate_contracts [?r1] = Inr ?t" by (simp add: netting_eval)
  have h2: "aggregate_contracts ([?r1] @ [?r2]) = Inr ?t'" by (simp add: netting_eval)
  have h3: "parse_decimal (?r2 key_pnl) = Inr (Finite False 50 0)" by (simp add: netting_eval)
  have h4: "parse_decimal (?r2 key_amount) = Inr (Finite False 0 0)" by (simp add: netting_eval)
  have h5: "dec_le zero (if eq_zero (Finite False 50 0) = Inr True then Finite False 0 0
                         else Finite False 50 0)"
    by (simp add: zero_def signed_def)
  have h6: "snd (setdefault ?t (ascii ''BTC'')) = ?b" by (simp add: setdefault_def)
  have h7: "is_number (cost ?b) \<and> is_number (profit ?b)" by simp
  have h8: "map_of ?t' (ascii ''BTC'') = Some ?b'" by simp
  from accumulators_monotone [OF h1 h2] h3 h4 h5 h6 h7 h8 show ?thesis
    by (simp add: zero_def signed_def)
qed

section \<open>Properties of process\_excel.py\<close>

subsection \<open>Weighted average of a leg\<close>

text \<open>
  Claim C2.  A leg of two rows, the first with a text that is no number in the price cell
  and quantity 1, the second with price 10 and quantity 1.  \<^verbatim>\<open>dropna\<close> keeps both rows,
  so the quantity of the first row enters the denominator while its product is skipped in
  the numerator: the code gives \<open>10 / 2 = 5\<close>, where the average over the rows with both a
  parseable price and a parseable quantity is \<open>10 / 1 = 10\<close>.
\<close>

theorem leg_avg_price_unparseable_price:
  "leg_avg_price
     [\<lparr>order_time = 1, side = Some marker_buy, avg_price = Unparseable, quantity = Num 1,
        notional = Num 10\<rparr>,
      \<lparr>order_time = 2, side = Some marker_buy, avg_price = Num 10, quantity = Num 1,
        notional = Num 10\<rparr>] = 5 \<and>
   spec_weighted_average
     [\<lparr>order_time = 1, side = Some marker_buy, avg_price = Unparseable, quantity = Num 1,
        notional = Num 10\<rparr>,
      \<lparr>order_time = 2, side = Some marker_buy, avg_price = Num 10, quantity = Num 1,
        notional = Num 10\<rparr>] = 10"
  by (simp add: reconstruction_eval)

text \<open>Where no row of the leg has a present but unparseable price and the quantities sum
  to a non-negative total, the code computes the average of the specification.\<close>

lemma dropna_both_parseable:
  assumes "\<forall>r \<in> set orders. avg_price r \<noteq> Unparseable"
  shows "map f (filter both_parseable (dropna orders)) = map f (filter both_parseable orders)"
    and "nansum (map (\<lambda>r. to_numeric (quantity r)) (dropna orders)) =
         nansum (map (\<lambda>r. to_numeric (quantity r)) (filter both_parseable orders))"
    and "nansum (map (\<lambda>r. nan_times (to_numeric (avg_price r)) (to_numeric (quantity r)))
           (dropna orders)) =
         nansum (map (\<lambda>r. nan_times (to_numeric (avg_price r)) (to_numeric (quantity r)))
           (filter both_parseable orders))"
  using assms
proof (induction orders)
  case Nil
  {
    case 1 show ?case by (simp add: dropna_def)
  next
    case 2 show ?case by (simp add: dropna_def)
  next
    case 3 show ?case by (simp add: dropna_def)
  }
next
  case (Cons a orders)
  {
    case 1
    with Cons.IH(1) show ?case
      by (cases "avg_price a"; cases "quantity a") (auto simp: dropna_def both_parseable_def)
  next
    case 2
    with Cons.IH(2) show ?case
      by (cases "avg_price a"; cases "quantity a")
        (auto simp: dropna_def both_parseable_def nansum_def)
  next
    case 3
    with Cons.IH(3) show ?case
      by (cases "avg_price a"; cases "quantity a")
        (auto simp: dropna_def both_parseable_def nansum_def nan_times_def)
  }
qed

lemma leg_avg_price_spec:
  assumes "\<forall>r \<in> set orders. avg_price r \<noteq> Unparseable"
    and "0 \<le> nansum (map (\<lambda>r. to_numeric (quantity r)) (filter both_parseable orders))"
  shows "leg_avg_price orders = spec_weighted_average orders"
proof -
  have e: "dropna orders = [] \<Longrightarrow> filter both_parseable orders = []"
    by (auto simp: dropna_def both_parseable_def filter_empty_conv)
  show ?thesis
    using assms(2) dropna_both_parseable(2,3) [OF assms(1)] e
    by (auto simp: leg_avg_price_def spec_weighted_average_def Let_def nansum_def)
qed

subsection \<open>Direction\<close>

text \<open>
  Claim C8.  A contract whose earliest row with a positive notional has an empty side cell:
  the membership test on the cell raises \<^verbatim>\<open>TypeError\<close> and no direction is inferred, where
  the partition into legs (\<^verbatim>\<open>na=False\<close>) takes such a cell as matching no marker.
\<close>

theorem direction_of_empty_side_cell:
  "process_symbol (ascii ''ETH'')
     [\<lparr>order_time = 1, side = None, avg_price = Num 100, quantity = Num 1,
        notional = Num 100\<rparr>,
      \<lparr>order_time = 2, side = Some marker_sell, avg_price = Num 110, quantity = Num 1,
        notional = Num 110\<rparr>] = Inl TypeError \<and>
   \<not> str_contains (open_markers True) None \<and> \<not> str_contains (close_markers True) None"
  by (simp add: reconstruction_eval)

text \<open>With a text in the side cell of the earliest surviving row, that cell alone decides
  the direction.\<close>

lemma direction_first_row:
  assumes "filter positive_amount sorted_rows = first # rest"
    and "side first = Some tag"
  shows "\<exists>s. process_symbol name sorted_rows = Inr (Some s) \<and>
           (direction s = Long \<longleftrightarrow> contains marker_buy tag \<or> contains marker_open_long tag) \<and>
           (direction s = Short \<longleftrightarrow> \<not> (contains marker_buy tag \<or> contains marker_open_long tag))"
  using assms by (simp add: process_symbol_def legs_def infer_is_long_def Let_def)

subsection \<open>The two legs\<close>

text \<open>
  Claim C4, as stated, fails: in a long contract a row tagged buy-to-close-short contains
  the buy marker and the close marker and lands in both legs, and a row whose tag contains
  no marker lands in neither.
\<close>

theorem leg_partition_counterexample:
  "filter positive_amount
     [\<lparr>order_time = 1, side = Some (marker_buy @ [20837] @ marker_open_long),
        avg_price = Num 100, quantity = Num 1, notional = Num 100\<rparr>,
      \<lparr>order_time = 2, side = Some (marker_buy @ [20837] @ marker_close @ [31354]),
        avg_price = Num 100, quantity = Num 1, notional = Num 100\<rparr>,
      \<lparr>order_time = 3, side = Some [20854, 20182],
        avg_price = Num 100, quantity = Num 1, notional = Num 100\<rparr>] =
     [\<lparr>order_time = 1, side = Some (marker_buy @ [20837] @ marker_open_long),
        avg_price = Num 100, quantity = Num 1, notional = Num 100\<rparr>,
      \<lparr>order_time = 2, side = Some (marker_buy @ [20837] @ marker_close @ [31354]),
        avg_price = Num 100, quantity = Num 1, notional = Num 100\<rparr>,
      \<lparr>order_time = 3, side = Some [20854, 20182],
        avg_price = Num 100, quantity = Num 1, notional = Num 100\<rparr>] \<and>
   infer_is_long (Some (marker_buy @ [20837] @ marker_open_long)) = Inr True \<and>
   open_orders True
     [\<lparr>order_time = 1, side = Some (marker_buy @ [20837] @ marker_open_long),
        avg_price = Num 100, quantity = Num 1, notional = Num 100\<rparr>,
      \<lparr>order_time = 2, side = Some (marker_buy @ [20837] @ marker_close @ [31354]),
        avg_price = Num 100, quantity = Num 1, notional = Num 100\<rparr>,
      \<lparr>order_time = 3, side = Some [20854, 20182],
        avg_price = Num 100, quantity = Num 1, notional = Num 100\<rparr>] =
     [\<lparr>order_time = 1, side = Some (marker_buy @ [20837] @ marker_open_long),
        avg_price = Num 100, quantity = Num 1, notional = Num 100\<rparr>,
      \<lparr>order_time = 2, side = Some (marker_buy @ [20837] @ marker_close @ [31354]),
        avg_price = Num 100, quantity = Num 1, notional = Num 100\<rparr>] \<and>
   close_orders True
     [\<lparr>order_time = 1, side = Some (marker_buy @ [20837] @ marker_open_long),
        avg_price = Num 100, quantity = Num 1, notional = Num 100\<rparr>,
      \<lparr>order_time = 2, side = Some (marker_buy @ [20837] @ marker_close @ [31354]),
        avg_price = Num 100, quantity = Num 1, notional = Num 100\<rparr>,
      \<lparr>order_time = 3, side = Some [20854, 20182],
        avg_price = Num 100, quantity = Num 1, notional = Num 100\<rparr>] =
     [\<lparr>order_time = 2, side = Some (marker_buy @ [20837] @ marker_close @ [31354]),
        avg_price = Num 100, quantity = Num 1, notional = Num 100\<rparr>]"
  by (simp add: reconstruction_eval)

text \<open>
  Claim C4, amended.  Let the rows of a contract yield legs: the direction \<open>is_long\<close>, the
  opening leg \<open>opens\<close> and the closing leg \<open>closes\<close>.  Then some row survives the filter on
  the notional, the earliest surviving row has a side text, and the direction is long
  exactly when that text contains the buy marker or the open-long marker.  A row is in the
  opening leg exactly when it is a row of the contract with a positive notional whose side
  cell holds a text that contains, in a long contract, the buy marker or the open-long
  marker and, in a short contract, the sell marker or the open-short marker.  A row is in
  the closing leg exactly when it is a row of the contract with a positive notional whose
  side cell holds a text that contains, in a long contract, the sell marker or the close
  marker and, in a short contract, the buy marker or the close marker.
\<close>

theorem leg_classification:
  assumes "legs sorted_rows = Inr (Some (is_long, opens, closes))"
  shows "(\<exists>first rest tag.
            filter positive_amount sorted_rows = first # rest \<and> side first = Some tag \<and>
            is_long = (contains marker_buy tag \<or> contains marker_open_long tag)) \<and>
         (\<forall>r. r \<in> set opens \<longleftrightarrow>
            r \<in> set sorted_rows \<and> positive_amount r \<and>
            (\<exists>tag. side r = Some tag \<and>
               (if is_long then contains marker_buy tag \<or> contains marker_open_long tag
                else contains marker_sell tag \<or> contains marker_open_short tag))) \<and>
         (\<forall>r. r \<in> set closes \<longleftrightarrow>
            r \<in> set sorted_rows \<and> positive_amount r \<and>
            (\<exists>tag. side r = Some tag \<and>
               (if is_long then contains marker_sell tag \<or> contains marker_close tag
                else contains marker_buy tag \<or> contains marker_close tag)))"
proof -
  from assms obtain first rest
    where df: "filter positive_amount sorted_rows = first # rest"
      and il: "infer_is_long (side first) = Inr is_long"
      and o: "opens = open_orders is_long (first # rest)"
      and c: "closes = close_orders is_long (first # rest)"
    by (auto simp: legs_def Let_def split: list.splits sum.splits)
  from il obtain tag where tag: "side first = Some tag"
    and dir: "is_long = (contains marker_buy tag \<or> contains marker_open_long tag)"
    by (auto simp: infer_is_long_def split: option.splits)
  have mem: "r \<in> set (first # rest) \<longleftrightarrow> r \<in> set sorted_rows \<and> positive_amount r" for r
    unfolding df [symmetric] by simp
  have op: "str_contains (open_markers is_long) (side r) \<longleftrightarrow>
      (\<exists>tag. side r = Some tag \<and>
         (if is_long then contains marker_buy tag \<or> contains marker_open_long tag
          else contains marker_sell tag \<or> contains marker_open_short tag))" for r
    by (cases "side r") (simp_all add: str_contains_def open_markers_def)
  have cl: "str_contains (close_markers is_long) (side r) \<longleftrightarrow>
      (\<exists>tag. side r = Some tag \<and>
         (if is_long then contains marker_sell tag \<or> contains marker_close tag
          else contains marker_buy tag \<or> contains marker_close tag))" for r
    by (cases "side r") (simp_all add: str_contains_def close_markers_def)
  have 1: "\<exists>first rest tag.
            filter positive_amount sorted_rows = first # rest \<and> side first = Some tag \<and>
            is_long = (contains marker_buy tag \<or> contains marker_open_long tag)"
    using df tag dir by blast
  have 2: "r \<in> set opens \<longleftrightarrow>
            r \<in> set sorted_rows \<and> positive_amount r \<and>
            (\<exists>tag. side r = Some tag \<and>
               (if is_long then contains marker_buy tag \<or> contains marker_open_long tag
                else contains marker_sell tag \<or> contains marker_open_short tag))" for r
    unfolding o open_orders_def set_filter mem_Collect_eq mem op by (rule conj_assoc)
  have 3: "r \<in> set closes \<longleftrightarrow>
            r \<in> set sorted_rows \<and> positive_amount r \<and>
            (\<exists>tag. side r = Some tag \<and>
               (if is_long then contains marker_sell tag \<or> contains marker_close tag
                else contains marker_buy tag \<or> contains marker_close tag))" for r
    unfolding c close_orders_def set_filter mem_Collect_eq mem cl by (rule conj_assoc)
  from 1 2 3 show ?thesis by (intro conjI allI)
qed

theorem leg_classification_witness:
  "(\<lparr>order_time = 2, side = Some marker_sell, avg_price = Num 110, quantity = Num 1,
       notional = Num 110\<rparr>
      \<in> set [\<lparr>order_time = 1, side = Some marker_buy, avg_price = Num 100, quantity = Num 1,
                notional = Num 100\<rparr>]) = False \<and>
   (\<lparr>order_time = 2, side = Some marker_sell, avg_price = Num 110, quantity = Num 1,
       notional = Num 110\<rparr>
      \<in> set [\<lparr>order_time = 2, side = Some marker_sell, avg_price = Num 110, quantity = Num 1,
                notional = Num 110\<rparr>]) = True \<and>
   (contains marker_buy marker_buy \<or> contains marker_open_long marker_buy)"
proof -
  let ?a = "\<lparr>order_time = 1, side = Some marker_buy, avg_price = Num 100, quantity = Num 1,
             notional = Num 100\<rparr>"
  let ?b = "\<lparr>order_time = 2, side = Some marker_sell, avg_price = Num 110, quantity = Num 1,
             notional = Num 110\<rparr>"
  have h: "legs [?a, ?b] = Inr (Some (True, [?a], [?b]))"
    by (simp add: reconstruction_eval)
  have f: "filter positive_amount [?a, ?b] = [?a, ?b]"
    by (simp add: reconstruction_eval)
  have 1: "(?b \<in> set [?a]) = False" by simp
  have 2: "(?b \<in> set [?b]) = True" by simp
  from leg_classification [OF h]
  have "\<exists>first rest tag. [?a, ?b] = first # rest \<and> side first = Some tag \<and>
          True = (contains marker_buy tag \<or> contains marker_open_long tag)"
    unfolding f by (rule conjunct1)
  then have 3: "contains marker_buy marker_buy \<or> contains marker_open_long marker_buy"
    by auto
  from 1 2 3 show ?thesis by (intro conjI)
qed

subsection \<open>Profit\<close>





end
